theory Spec2Isabelle
  imports Main "HOL-Library.AList" "HOL-Library.Monad_Syntax"
begin

section \<open>ProcFs: snapshot queries against /proc\<close>

text \<open>
  The process tracker of \<^verbatim>\<open>daemon/src/linux/proc_tracker.cpp\<close> reads three things from
  /proc: the numeric directory entries, the target of \<^verbatim>\<open>/proc/PID/exe\<close> and the
  \<^verbatim>\<open>PPid:\<close> line of \<^verbatim>\<open>/proc/PID/status\<close>.  A snapshot records what these reads
  return: \<open>proc_entries\<close> is the list of \<^verbatim>\<open>entry.toInt()\<close> over the entries matching
  \<^verbatim>\<open>[1-9]*\<close>, \<open>proc_exe\<close> is \<^verbatim>\<open>QFile::symLinkTarget\<close> (the empty string when the
  link cannot be resolved) and \<open>proc_ppid\<close> is the captured parent pid (\<open>None\<close> when the
  status file cannot be opened or has no match).
\<close>

type_synonym pid_t = int

record procfs =
  proc_entries :: "pid_t list"
  proc_exe :: "pid_t \<Rightarrow> string"
  proc_ppid :: "pid_t \<Rightarrow> int option"

text \<open>\<^verbatim>\<open>ProcFs::filterPids\<close> returns a \<^verbatim>\<open>QSet\<close>; the model keeps it as a duplicate-free
  list in directory order, which fixes one iteration order for the loops over it.\<close>

definition filterPids :: "procfs \<Rightarrow> (pid_t \<Rightarrow> bool) \<Rightarrow> pid_t list" where
  "filterPids fs filterFunc = remdups (filter filterFunc (proc_entries fs))"

definition pathForPid :: "procfs \<Rightarrow> pid_t \<Rightarrow> string" where
  "pathForPid fs pid = proc_exe fs pid"

definition isChildOf :: "procfs \<Rightarrow> pid_t \<Rightarrow> pid_t \<Rightarrow> bool" where
  "isChildOf fs parentPid pid =
     (case proc_ppid fs pid of
        None \<Rightarrow> False
      | Some foundParentPid \<Rightarrow> foundParentPid = parentPid)"

definition pidsForPath :: "procfs \<Rightarrow> string \<Rightarrow> pid_t list" where
  "pidsForPath fs path = filterPids fs (\<lambda>pid. pathForPid fs pid = path)"

definition childPidsOf :: "procfs \<Rightarrow> pid_t \<Rightarrow> pid_t list" where
  "childPidsOf fs parentPid = filterPids fs (\<lambda>pid. isChildOf fs parentPid pid)"

section \<open>The kernel state the tracker drives\<close>

text \<open>
  The three cgroup task files (\<^verbatim>\<open>Path::ParentVpnExclusionsFile\<close>,
  \<^verbatim>\<open>Path::VpnExclusionsFile\<close>, \<^verbatim>\<open>Path::VpnOnlyFile\<close>), the two routing tables
  (\<^verbatim>\<open>IpTablesFirewall::kRtableName\<close>, \<^verbatim>\<open>kVpnOnlyRtableName\<close>) and the commands handed
  to \<^verbatim>\<open>::shellExecute\<close>.
\<close>

datatype cgroup_file = ParentVpnExclusionsFile | VpnExclusionsFile | VpnOnlyFile

datatype rtable = kRtableName | kVpnOnlyRtableName

datatype shell_cmd =
    IpRouteReplace string string rtable
  | IpRouteFlushCache
  | IpRuleAdd string rtable
  | IpRuleDel string rtable
  | SysctlRead
  | SysctlWrite string

text \<open>
  \<open>cgroup_of\<close> is the net_cls cgroup whose task file each pid was last written to;
  \<open>ip_rules\<close> the installed source-IP rules (a list: the kernel may hold the same rule
  twice); \<open>default_route\<close> the default route (gateway, device) of each table;
  \<open>transIp_rules\<close> the content of the NAT anchor \<^verbatim>\<open>100.transIp\<close>; \<open>rp_filter\<close> the text
  \<^verbatim>\<open>sysctl -n net.ipv4.conf.all.rp_filter\<close> prints; \<open>open_socks\<close> the netlink
  descriptors the process holds; \<open>shell_log\<close> every command executed so far, newest
  first.

  The tracker logs a failed write or command and goes on.  The model takes the kernel's
  side of each call to succeed: a pid written to a task file is in that cgroup,
  \<^verbatim>\<open>ip rule add\<close> installs its rule, \<^verbatim>\<open>ip rule del\<close> removes one matching rule if there is
  one, \<^verbatim>\<open>ip route replace\<close> sets the default route of its table.
\<close>

record kernel =
  cgroup_of :: "pid_t \<Rightarrow> cgroup_file"
  ip_rules :: "(string \<times> rtable) list"
  default_route :: "rtable \<Rightarrow> (string \<times> string) option"
  transIp_rules :: "string list"
  tagPkts_enabled :: bool
  transIp_enabled :: bool
  rp_filter :: string
  open_socks :: "int list"
  shell_log :: "shell_cmd list"

fun shell_effect :: "shell_cmd \<Rightarrow> kernel \<Rightarrow> kernel" where
  "shell_effect (IpRouteReplace gw dev tbl) k =
     k\<lparr>default_route := (default_route k)(tbl := Some (gw, dev))\<rparr>"
| "shell_effect IpRouteFlushCache k = k"
| "shell_effect (IpRuleAdd ip tbl) k = k\<lparr>ip_rules := (ip, tbl) # ip_rules k\<rparr>"
| "shell_effect (IpRuleDel ip tbl) k = k\<lparr>ip_rules := remove1 (ip, tbl) (ip_rules k)\<rparr>"
| "shell_effect SysctlRead k = k"
| "shell_effect (SysctlWrite v) k = k\<lparr>rp_filter := v\<rparr>"

definition shellExecute :: "shell_cmd \<Rightarrow> kernel \<Rightarrow> kernel" where
  "shellExecute cmd k = (shell_effect cmd k)\<lparr>shell_log := cmd # shell_log k\<rparr>"

text \<open>The return values of the system calls of one public operation, and the exit code
  of its \<^verbatim>\<open>sysctl -n\<close>.\<close>

record syscalls =
  socket_ret :: int
  bind_ret :: int
  send_ret :: int
  sysctl_exit :: int

section \<open>Cgroup writer\<close>

definition writePidToCGroup :: "pid_t \<Rightarrow> cgroup_file \<Rightarrow> kernel \<Rightarrow> kernel" where
  "writePidToCGroup pid cGroupPath k = k\<lparr>cgroup_of := (cgroup_of k)(pid := cGroupPath)\<rparr>"

text \<open>A range-for whose body may not return: the loop stops with \<open>None\<close> at the first
  iteration that does not return.\<close>

fun for_each :: "('a \<Rightarrow> 's \<Rightarrow> 's option) \<Rightarrow> 'a list \<Rightarrow> 's \<Rightarrow> 's option" where
  "for_each body [] s = Some s"
| "for_each body (x # xs) s =
     (case body x s of None \<Rightarrow> None | Some s' \<Rightarrow> for_each body xs s')"

text \<open>
  \<^verbatim>\<open>addPidToCgroup\<close> and \<^verbatim>\<open>addChildPidsToCgroup\<close> call each other with no bound of
  their own.  The first argument of the model is the call depth available: a call that
  needs more is \<open>None\<close>, so a recursion that never returns is \<open>None\<close> at every depth.
\<close>

fun addPidToCgroup :: "nat \<Rightarrow> procfs \<Rightarrow> pid_t \<Rightarrow> cgroup_file \<Rightarrow> kernel \<Rightarrow> kernel option"
  and addChildPidsToCgroup :: "nat \<Rightarrow> procfs \<Rightarrow> pid_t \<Rightarrow> cgroup_file \<Rightarrow> kernel \<Rightarrow> kernel option"
where
  "addPidToCgroup 0 fs pid cGroupPath k = None"
| "addPidToCgroup (Suc depth) fs pid cGroupPath k =
     addChildPidsToCgroup depth fs pid cGroupPath (writePidToCGroup pid cGroupPath k)"
| "addChildPidsToCgroup depth fs parentPid cGroupPath k =
     for_each (\<lambda>pid k'. addPidToCgroup depth fs pid cGroupPath k')
       (childPidsOf fs parentPid) k"

fun removePidFromCgroup :: "nat \<Rightarrow> procfs \<Rightarrow> pid_t \<Rightarrow> cgroup_file \<Rightarrow> kernel \<Rightarrow> kernel option"
  and removeChildPidsFromCgroup :: "nat \<Rightarrow> procfs \<Rightarrow> pid_t \<Rightarrow> cgroup_file \<Rightarrow> kernel \<Rightarrow> kernel option"
where
  "removePidFromCgroup 0 fs pid cGroupPath k = None"
| "removePidFromCgroup (Suc depth) fs pid cGroupPath k =
     removeChildPidsFromCgroup depth fs pid cGroupPath (writePidToCGroup pid cGroupPath k)"
| "removeChildPidsFromCgroup depth fs parentPid cGroupPath k =
     for_each (\<lambda>pid k'. removePidFromCgroup depth fs pid cGroupPath k')
       (childPidsOf fs parentPid) k"

section \<open>The tracker's own state\<close>

text \<open>
  \<^verbatim>\<open>OriginalNetworkScan\<close> and \<^verbatim>\<open>FirewallParams\<close> are declared in headers that are not
  part of the translated file; the records hold the members the tracker reads.
\<close>

record net_scan =
  gatewayIp :: string
  interfaceName :: string
  ipAddress :: string

text \<open>Modelled from the spec: \<^verbatim>\<open>OriginalNetworkScan::isValid\<close>, whose body is not in the
  translated file.  The specification's data model: a network scan is valid iff all
  three fields are non-empty.\<close>

definition isValid :: "net_scan \<Rightarrow> bool" where
  "isValid scan = (gatewayIp scan \<noteq> [] \<and> interfaceName scan \<noteq> [] \<and> ipAddress scan \<noteq> [])"

definition empty_scan :: net_scan where
  "empty_scan = \<lparr>gatewayIp = [], interfaceName = [], ipAddress = []\<rparr>"

record firewall_params =
  splitTunnelNetScan :: net_scan
  excludeApps :: "string list"
  vpnOnlyApps :: "string list"

text \<open>\<^verbatim>\<open>AppMap\<close> is a \<^verbatim>\<open>QMap\<close> from executable path to a \<^verbatim>\<open>QSet\<close> of pids: an
  association list from path to a duplicate-free list of pids.\<close>

type_synonym app_map = "(string \<times> pid_t list) list"

definition app_contains :: "app_map \<Rightarrow> string \<Rightarrow> bool" where
  "app_contains appMap app = (map_of appMap app \<noteq> None)"

definition app_pids :: "app_map \<Rightarrow> string \<Rightarrow> pid_t list" where
  "app_pids appMap app = (case map_of appMap app of None \<Rightarrow> [] | Some pids \<Rightarrow> pids)"

definition app_insert_pid :: "string \<Rightarrow> pid_t \<Rightarrow> app_map \<Rightarrow> app_map" where
  "app_insert_pid app pid appMap =
     AList.update app (List.insert pid (app_pids appMap app)) appMap"

text \<open>\<open>readNotifier\<close> is the socket the \<^verbatim>\<open>QSocketNotifier\<close> watches, \<open>None\<close> for a null
  pointer.\<close>

record proc_tracker =
  sockFd :: int
  readNotifier :: "int option"
  previousNetScan :: net_scan
  previousTunnelDeviceLocalAddress :: string
  previousRPFilter :: string
  exclusionsMap :: app_map
  vpnOnlyMap :: app_map

definition initial_tracker :: proc_tracker where
  "initial_tracker =
     \<lparr>sockFd = - 1, readNotifier = None, previousNetScan = empty_scan,
      previousTunnelDeviceLocalAddress = [], previousRPFilter = [],
      exclusionsMap = [], vpnOnlyMap = []\<rparr>"

section \<open>Rule controller\<close>

text \<open>Modelled from the spec: \<^verbatim>\<open>IpTablesFirewall::setAnchorEnabled\<close> and
  \<^verbatim>\<open>IpTablesFirewall::replaceAnchor\<close>, defined outside the translated file.  The first
  switches a named anchor on or off, the second replaces the rules of the anchor
  \<^verbatim>\<open>100.transIp\<close>.\<close>

datatype anchor = TagPkts | TransIp

definition setAnchorEnabled :: "anchor \<Rightarrow> bool \<Rightarrow> kernel \<Rightarrow> kernel" where
  "setAnchorEnabled a enabled k =
     (case a of TagPkts \<Rightarrow> k\<lparr>tagPkts_enabled := enabled\<rparr>
              | TransIp \<Rightarrow> k\<lparr>transIp_enabled := enabled\<rparr>)"

definition replaceAnchor :: "string list \<Rightarrow> kernel \<Rightarrow> kernel" where
  "replaceAnchor rules k = k\<lparr>transIp_rules := rules\<rparr>"

definition updateMasquerade :: "string \<Rightarrow> kernel \<Rightarrow> kernel" where
  "updateMasquerade iface k =
     (if iface = [] then replaceAnchor [] k
      else replaceAnchor [''-o '' @ iface @ '' -j MASQUERADE'', ''-o tun+ -j MASQUERADE''] k)"

definition updateRoutes :: "string \<Rightarrow> string \<Rightarrow> string \<Rightarrow> string \<Rightarrow> kernel \<Rightarrow> kernel" where
  "updateRoutes gw iface tunnelDeviceName tunnelDeviceRemoteAddress k =
     (let k = (if gw = [] \<or> iface = [] then k
               else shellExecute (IpRouteReplace gw iface kRtableName) k);
          k = (if tunnelDeviceRemoteAddress = [] \<or> tunnelDeviceName = [] then k
               else shellExecute
                      (IpRouteReplace tunnelDeviceRemoteAddress tunnelDeviceName
                         kVpnOnlyRtableName) k)
      in shellExecute IpRouteFlushCache k)"

definition addRoutingPolicyForSourceIp :: "string \<Rightarrow> rtable \<Rightarrow> kernel \<Rightarrow> kernel" where
  "addRoutingPolicyForSourceIp ip routingTableName k =
     (if ip \<noteq> [] then shellExecute (IpRuleAdd ip routingTableName) k else k)"

definition removeRoutingPolicyForSourceIp :: "string \<Rightarrow> rtable \<Rightarrow> kernel \<Rightarrow> kernel" where
  "removeRoutingPolicyForSourceIp ip routingTableName k =
     (if ip \<noteq> [] then shellExecute (IpRuleDel ip routingTableName) k else k)"

definition updateNetwork ::
  "firewall_params \<Rightarrow> string \<Rightarrow> string \<Rightarrow> string \<Rightarrow> proc_tracker \<times> kernel \<Rightarrow> proc_tracker \<times> kernel"
where
  "updateNetwork params tunnelDeviceName tunnelDeviceLocalAddress tunnelDeviceRemoteAddress tk =
     (let t = fst tk; k = snd tk;
          scan = splitTunnelNetScan params;
          k = (if interfaceName (previousNetScan t) \<noteq> interfaceName scan
               then updateMasquerade (interfaceName scan) k else k);
          k = (if ipAddress (previousNetScan t) \<noteq> ipAddress scan
               then addRoutingPolicyForSourceIp (ipAddress scan) kRtableName
                      (removeRoutingPolicyForSourceIp (ipAddress (previousNetScan t))
                         kRtableName k)
               else k);
          k = (if previousTunnelDeviceLocalAddress t \<noteq> tunnelDeviceLocalAddress
               then addRoutingPolicyForSourceIp tunnelDeviceLocalAddress kVpnOnlyRtableName
                      (removeRoutingPolicyForSourceIp (previousTunnelDeviceLocalAddress t)
                         kVpnOnlyRtableName k)
               else k);
          k = updateRoutes (gatewayIp scan) (interfaceName scan) tunnelDeviceName
                tunnelDeviceRemoteAddress k
      in (t\<lparr>previousNetScan := scan,
            previousTunnelDeviceLocalAddress := tunnelDeviceLocalAddress\<rparr>, k))"

definition setupFirewall :: "kernel \<Rightarrow> kernel" where
  "setupFirewall k = setAnchorEnabled TransIp True (setAnchorEnabled TagPkts True k)"

definition teardownFirewall :: "kernel \<Rightarrow> kernel" where
  "teardownFirewall k = setAnchorEnabled TagPkts False (setAnchorEnabled TransIp False k)"

subsection \<open>Reverse-path filtering\<close>

text \<open>\<^verbatim>\<open>QString::toInt\<close>: a decimal number with an optional sign, white space around it
  ignored; 0 when the text is not a number or does not fit an \<^verbatim>\<open>int\<close>.\<close>

definition is_space :: "char \<Rightarrow> bool" where
  "is_space c = (c \<in> set [CHR '' '', CHR 0x09, CHR 0x0A, CHR 0x0B, CHR 0x0C, CHR 0x0D])"

definition digit_of :: "char \<Rightarrow> nat option" where
  "digit_of c = map_of (zip ''0123456789'' [0, 1, 2, 3, 4, 5, 6, 7, 8, 9]) c"

fun digits_val :: "string \<Rightarrow> nat \<Rightarrow> nat option" where
  "digits_val [] acc = Some acc"
| "digits_val (c # cs) acc =
     (case digit_of c of None \<Rightarrow> None | Some d \<Rightarrow> digits_val cs (10 * acc + d))"

definition toInt :: "string \<Rightarrow> int" where
  "toInt s =
     (let t = dropWhile is_space (rev (dropWhile is_space (rev s)));
          neg = (t \<noteq> [] \<and> hd t = CHR ''-'');
          ds = (if t \<noteq> [] \<and> (hd t = CHR ''-'' \<or> hd t = CHR ''+'') then tl t else t)
      in if ds = [] then 0
         else case digits_val ds 0 of
                None \<Rightarrow> 0
              | Some n \<Rightarrow>
                  (let v = (if neg then - int n else int n)
                   in if - 2147483648 \<le> v \<and> v \<le> 2147483647 then v else 0))"

definition setupReversePathFiltering ::
  "syscalls \<Rightarrow> proc_tracker \<times> kernel \<Rightarrow> proc_tracker \<times> kernel"
where
  "setupReversePathFiltering sys tk =
     (let t = fst tk; out = rp_filter (snd tk); k = shellExecute SysctlRead (snd tk)
      in if sysctl_exit sys = 0
         then (if toInt out \<noteq> 2
               then (t\<lparr>previousRPFilter := out\<rparr>, shellExecute (SysctlWrite ''2'') k)
               else (t, k))
         else (t\<lparr>previousRPFilter := []\<rparr>, k))"

definition teardownReversePathFiltering :: "proc_tracker \<Rightarrow> kernel \<Rightarrow> kernel" where
  "teardownReversePathFiltering t k =
     (if previousRPFilter t \<noteq> [] then shellExecute (SysctlWrite (previousRPFilter t)) k
      else k)"

section \<open>Reconciling the tracked applications\<close>

definition removeApps ::
  "nat \<Rightarrow> procfs \<Rightarrow> string list \<Rightarrow> app_map \<times> kernel \<Rightarrow> (app_map \<times> kernel) option"
where
  "removeApps depth fs keepApps mk =
     for_each
       (\<lambda>app (appMap, k).
          if app \<notin> set keepApps
          then do {
            k' \<leftarrow> for_each (\<lambda>pid k. removePidFromCgroup depth fs pid ParentVpnExclusionsFile k)
                    (app_pids appMap app) k;
            Some (AList.delete app appMap, k')
          }
          else Some (appMap, k))
       (map fst (fst mk)) mk"

definition addApps ::
  "nat \<Rightarrow> procfs \<Rightarrow> string list \<Rightarrow> cgroup_file \<Rightarrow> app_map \<times> kernel \<Rightarrow> (app_map \<times> kernel) option"
where
  "addApps depth fs apps cGroupPath mk =
     for_each
       (\<lambda>app (appMap, k).
          for_each
            (\<lambda>pid (appMap, k). do {
               k' \<leftarrow> addPidToCgroup depth fs pid cGroupPath k;
               Some (app_insert_pid app pid appMap, k')
             })
            (pidsForPath fs app) (AList.update app [] appMap, k))
       apps mk"

text \<open>The tracker reads /proc anew in every \<^verbatim>\<open>ProcFs\<close> call, so the scan for the excluded
  paths and the later scan for the VPN-only paths need not see the same processes.  The
  pass over the exclusions map reads the snapshot \<open>fsE\<close>, the pass over the vpn-only map
  the snapshot \<open>fsV\<close>; the reads within one pass see one snapshot.\<close>

definition updateApps ::
  "nat \<Rightarrow> procfs \<Rightarrow> procfs \<Rightarrow> string list \<Rightarrow> string list \<Rightarrow> proc_tracker \<times> kernel
     \<Rightarrow> (proc_tracker \<times> kernel) option"
where
  "updateApps depth fsE fsV excludedApps vpnOnlyApps' tk =
     (let t = fst tk;
          excludedApps = (if \<not> isValid (previousNetScan t) then [] else excludedApps)
      in do {
        (em, k) \<leftarrow> removeApps depth fsE excludedApps (exclusionsMap t, snd tk);
        (em, k) \<leftarrow> addApps depth fsE excludedApps VpnExclusionsFile (em, k);
        (vm, k) \<leftarrow> removeApps depth fsV vpnOnlyApps' (vpnOnlyMap t, k);
        (vm, k) \<leftarrow> addApps depth fsV vpnOnlyApps' VpnOnlyFile (vm, k);
        Some (t\<lparr>exclusionsMap := em, vpnOnlyMap := vm\<rparr>, k)
      })"

definition removeAllApps ::
  "nat \<Rightarrow> procfs \<Rightarrow> proc_tracker \<times> kernel \<Rightarrow> (proc_tracker \<times> kernel) option"
where
  "removeAllApps depth fs tk =
     do {
       (em, k) \<leftarrow> removeApps depth fs [] (exclusionsMap (fst tk), snd tk);
       (vm, k) \<leftarrow> removeApps depth fs [] (vpnOnlyMap (fst tk), k);
       Some ((fst tk)\<lparr>exclusionsMap := [], vpnOnlyMap := []\<rparr>, k)
     }"

section \<open>Session lifecycle\<close>

definition subscribeToProcEvents :: "syscalls \<Rightarrow> int \<Rightarrow> bool \<Rightarrow> int" where
  "subscribeToProcEvents sys sock enabled = (if send_ret sys = - 1 then - 1 else 0)"

definition close_fd :: "int \<Rightarrow> kernel \<Rightarrow> kernel" where
  "close_fd fd k = k\<lparr>open_socks := remove1 fd (open_socks k)\<rparr>"

text \<open>In \<^verbatim>\<open>shutdownConnection\<close> the result of the unsubscribing
  \<^verbatim>\<open>subscribeToProcEvents(_sockFd, false)\<close> is discarded and the socket is closed right
  after it, so the call leaves no trace in the state.  \<open>readNotifier\<close> is nulled by the
  \<^verbatim>\<open>delete\<close>, as a \<^verbatim>\<open>QPointer\<close> is.\<close>

definition shutdownConnection ::
  "nat \<Rightarrow> procfs \<Rightarrow> proc_tracker \<times> kernel \<Rightarrow> (proc_tracker \<times> kernel) option"
where
  "shutdownConnection depth fs tk =
     (let t = fst tk; k = snd tk;
          t = (if readNotifier t \<noteq> None then t\<lparr>readNotifier := None\<rparr> else t);
          k = (if sockFd t \<noteq> - 1 then close_fd (sockFd t) k else k);
          k = teardownFirewall k
      in do {
        (t, k) \<leftarrow> removeAllApps depth fs (t, k);
        let k = removeRoutingPolicyForSourceIp (ipAddress (previousNetScan t)) kRtableName k;
        let k = removeRoutingPolicyForSourceIp (previousTunnelDeviceLocalAddress t)
                  kVpnOnlyRtableName k;
        let k = teardownReversePathFiltering t k;
        Some (t\<lparr>previousNetScan := empty_scan, sockFd := - 1\<rparr>, k)
      })"

definition updateSplitTunnel ::
  "nat \<Rightarrow> procfs \<Rightarrow> procfs \<Rightarrow> firewall_params \<Rightarrow> string \<Rightarrow> string \<Rightarrow> string \<Rightarrow> string list \<Rightarrow> string list
     \<Rightarrow> proc_tracker \<times> kernel \<Rightarrow> (proc_tracker \<times> kernel) option"
where
  "updateSplitTunnel depth fsE fsV params tunnelDeviceName tunnelDeviceLocalAddress
       tunnelDeviceRemoteAddress excludedApps vpnOnlyApps' tk =
     updateApps depth fsE fsV excludedApps vpnOnlyApps'
       (updateNetwork params tunnelDeviceName tunnelDeviceLocalAddress
          tunnelDeviceRemoteAddress tk)"

text \<open>The implicit shutdown of \<^verbatim>\<open>initiateConnection\<close> runs before the scans and reads the
  earlier snapshot.\<close>

definition initiateConnection ::
  "nat \<Rightarrow> procfs \<Rightarrow> procfs \<Rightarrow> syscalls \<Rightarrow> firewall_params \<Rightarrow> string \<Rightarrow> string \<Rightarrow> string
     \<Rightarrow> proc_tracker \<times> kernel \<Rightarrow> (proc_tracker \<times> kernel) option"
where
  "initiateConnection depth fsE fsV sys params tunnelDeviceName tunnelDeviceLocalAddress
       tunnelDeviceRemoteAddress tk =
     do {
       (t, k) \<leftarrow> (if sockFd (fst tk) \<noteq> - 1 then shutdownConnection depth fsE tk else Some tk);
       let sock = socket_ret sys;
       if sock = - 1 then Some (t, k)
       else let k = k\<lparr>open_socks := sock # open_socks k\<rparr> in
         if bind_ret sys = - 1 then Some (t, close_fd sock k)
         else if subscribeToProcEvents sys sock True = - 1 then Some (t, close_fd sock k)
         else do {
           let t = t\<lparr>sockFd := sock\<rparr>;
           let k = setupFirewall k;
           tk' \<leftarrow> updateSplitTunnel depth fsE fsV params tunnelDeviceName tunnelDeviceLocalAddress
                   tunnelDeviceRemoteAddress (excludeApps params) (vpnOnlyApps params) (t, k);
           let tk' = setupReversePathFiltering sys tk';
           Some ((fst tk')\<lparr>readNotifier := Some sock\<rparr>, snd tk')
         }
     }"

section \<open>Process events\<close>

definition removeTerminatedApp :: "pid_t \<Rightarrow> proc_tracker \<Rightarrow> proc_tracker" where
  "removeTerminatedApp pid t =
     t\<lparr>exclusionsMap := map (\<lambda>(app, pids). (app, removeAll pid pids)) (exclusionsMap t),
       vpnOnlyMap := map (\<lambda>(app, pids). (app, removeAll pid pids)) (vpnOnlyMap t)\<rparr>"

definition addLaunchedApp ::
  "nat \<Rightarrow> procfs \<Rightarrow> pid_t \<Rightarrow> proc_tracker \<times> kernel \<Rightarrow> (proc_tracker \<times> kernel) option"
where
  "addLaunchedApp depth fs pid tk =
     (let t = fst tk; k = snd tk; appName = pathForPid fs pid
      in if appName = [] then Some (t, k)
         else if app_contains (exclusionsMap t) appName
         then (if isValid (previousNetScan t)
               then do {
                 let t = t\<lparr>exclusionsMap := app_insert_pid appName pid (exclusionsMap t)\<rparr>;
                 k \<leftarrow> addPidToCgroup depth fs pid VpnExclusionsFile k;
                 Some (t, k)
               }
               else Some (t, k))
         else if app_contains (vpnOnlyMap t) appName
         then do {
           let t = t\<lparr>vpnOnlyMap := app_insert_pid appName pid (vpnOnlyMap t)\<rparr>;
           k \<leftarrow> addPidToCgroup depth fs pid VpnOnlyFile k;
           Some (t, k)
         }
         else Some (t, k))"

datatype proc_event =
    PROC_EVENT_NONE
  | PROC_EVENT_EXEC pid_t
  | PROC_EVENT_EXIT pid_t
  | PROC_EVENT_OTHER

fun readFromSocket ::
  "nat \<Rightarrow> procfs \<Rightarrow> proc_event \<Rightarrow> proc_tracker \<times> kernel \<Rightarrow> (proc_tracker \<times> kernel) option"
where
  "readFromSocket depth fs PROC_EVENT_NONE tk = Some tk"
| "readFromSocket depth fs (PROC_EVENT_EXEC pid) tk = addLaunchedApp depth fs pid tk"
| "readFromSocket depth fs (PROC_EVENT_EXIT pid) tk = Some (removeTerminatedApp pid (fst tk), snd tk)"
| "readFromSocket depth fs PROC_EVENT_OTHER tk = Some tk"

section \<open>Auxiliary notions\<close>

text \<open>The set of pids a map tracks for a path, \<open>None\<close> when the path has no entry.\<close>

definition tracked_pids :: "app_map \<Rightarrow> string \<Rightarrow> pid_t set option" where
  "tracked_pids appMap app = map_option set (map_of appMap app)"

text \<open>\<open>k'\<close> differs from \<open>k\<close> only in cgroup membership, and every pid that changed
  cgroup is now in \<open>cg\<close>.\<close>

definition writes_only_to :: "cgroup_file \<Rightarrow> kernel \<Rightarrow> kernel \<Rightarrow> bool" where
  "writes_only_to cg k k' =
     ((\<exists>c. k' = k\<lparr>cgroup_of := c\<rparr>) \<and>
      (\<forall>q. cgroup_of k' q = cg \<or> cgroup_of k' q = cgroup_of k q))"

text \<open>What the add phase does to the map for one path: the entry is reset and filled
  from the scan of /proc.\<close>

definition scan_app :: "procfs \<Rightarrow> string \<Rightarrow> app_map \<Rightarrow> app_map" where
  "scan_app fs app m = fold (app_insert_pid app) (pidsForPath fs app) (AList.update app [] m)"

text \<open>\<open>k'\<close> differs from \<open>k\<close> at most in cgroup membership.\<close>

definition same_but_cgroups :: "kernel \<Rightarrow> kernel \<Rightarrow> bool" where
  "same_but_cgroups k k' = (\<exists>c. k' = k\<lparr>cgroup_of := c\<rparr>)"

text \<open>The pids the recursion of \<^verbatim>\<open>addPidToCgroup\<close> started at \<open>pid\<close> visits: \<open>pid\<close>
  itself, and every pid \<^verbatim>\<open>childPidsOf\<close> returns for a visited pid.\<close>

inductive descendant :: "procfs \<Rightarrow> pid_t \<Rightarrow> pid_t \<Rightarrow> bool" for fs where
  self: "descendant fs pid pid"
| child: "c \<in> set (childPidsOf fs pid) \<Longrightarrow> descendant fs c q \<Longrightarrow> descendant fs pid q"

subsection \<open>Public operations and the states they reach\<close>

text \<open>One public operation of the tracker that returns.  \<open>fsE\<close> is the snapshot of /proc
  its reads for the exclusions map see, \<open>fsV\<close> the snapshot its reads for the vpn-only map
  see; \<^verbatim>\<open>addLaunchedApp\<close> resolves the launched pid once, for both maps.\<close>

inductive public_op ::
  "procfs \<Rightarrow> procfs \<Rightarrow> proc_tracker \<times> kernel \<Rightarrow> proc_tracker \<times> kernel \<Rightarrow> bool"
  for fsE fsV
where
  initiate:
    "initiateConnection depth fsE fsV sys params tunnelDeviceName tunnelDeviceLocalAddress
       tunnelDeviceRemoteAddress tk = Some tk' \<Longrightarrow> public_op fsE fsV tk tk'"
| update:
    "updateSplitTunnel depth fsE fsV params tunnelDeviceName tunnelDeviceLocalAddress
       tunnelDeviceRemoteAddress excludedApps vpnOnlyApps' tk = Some tk'
     \<Longrightarrow> public_op fsE fsV tk tk'"
| shutdown:
    "shutdownConnection depth fsE tk = Some tk' \<Longrightarrow> public_op fsE fsV tk tk'"
| launched:
    "addLaunchedApp depth fsE pid tk = Some tk' \<Longrightarrow> fsV = fsE \<Longrightarrow> public_op fsE fsV tk tk'"
| terminated:
    "public_op fsE fsV tk (removeTerminatedApp pid (fst tk), snd tk)"

text \<open>The states of a run: the daemon starts with a fresh tracker on a kernel that holds
  no source-IP rule and has run no command; then public operations follow one another,
  each against its own snapshots of /proc, while processes change cgroup and
  \<^verbatim>\<open>rp_filter\<close> may be rewritten from outside.\<close>

inductive reachable :: "proc_tracker \<times> kernel \<Rightarrow> bool" where
  boot: "ip_rules k = [] \<Longrightarrow> shell_log k = [] \<Longrightarrow> reachable (initial_tracker, k)"
| op: "reachable tk \<Longrightarrow> public_op fsE fsV tk tk' \<Longrightarrow> reachable tk'"
| outside: "reachable (t, k) \<Longrightarrow> reachable (t, k\<lparr>cgroup_of := c, rp_filter := v\<rparr>)"

subsection \<open>Invariants\<close>

text \<open>Gating: an invalid network scan goes with an empty exclusions map.\<close>

definition gating :: "proc_tracker \<times> kernel \<Rightarrow> bool" where
  "gating tk = (\<not> isValid (previousNetScan (fst tk)) \<longrightarrow> exclusionsMap (fst tk) = [])"

text \<open>No pid is in a path set of both maps.\<close>

definition pids_disjoint :: "proc_tracker \<Rightarrow> bool" where
  "pids_disjoint t =
     (\<forall>a b. set (app_pids (exclusionsMap t) a) \<inter> set (app_pids (vpnOnlyMap t) b) = {})"

text \<open>No pid that the scan for an excluded path returns is returned by the scan for a
  VPN-only path.\<close>

definition scans_disjoint :: "procfs \<Rightarrow> procfs \<Rightarrow> string list \<Rightarrow> string list \<Rightarrow> bool" where
  "scans_disjoint fsE fsV excludedApps vpnOnlyApps' =
     (\<forall>a \<in> set excludedApps. \<forall>b \<in> set vpnOnlyApps'.
        set (pidsForPath fsE a) \<inter> set (pidsForPath fsV b) = {})"

text \<open>Every pid that is in a path set of \<open>m'\<close> and was not in that set in \<open>m\<close> resolves to
  the path.\<close>

definition enters_by_path :: "procfs \<Rightarrow> app_map \<Rightarrow> app_map \<Rightarrow> bool" where
  "enters_by_path fs m m' =
     (\<forall>app pid. pid \<in> set (app_pids m' app) \<longrightarrow>
        pid \<in> set (app_pids m app) \<or> pathForPid fs pid = app)"

text \<open>The source-IP rules of one routing table.\<close>

definition table_rules :: "rtable \<Rightarrow> kernel \<Rightarrow> (string \<times> rtable) list" where
  "table_rules tbl k = filter (\<lambda>r. snd r = tbl) (ip_rules k)"

text \<open>Replaying a command log (newest first) from a kernel without source-IP rules:
  the rules installed at the end, or \<open>None\<close> when some \<^verbatim>\<open>ip rule add\<close> ran while a rule of
  its table was still installed.\<close>

fun replay_rules :: "shell_cmd list \<Rightarrow> (string \<times> rtable) list option" where
  "replay_rules [] = Some []"
| "replay_rules (cmd # older) =
     (case replay_rules older of
        None \<Rightarrow> None
      | Some rules \<Rightarrow>
          (case cmd of
             IpRuleAdd ip tbl \<Rightarrow>
               if filter (\<lambda>r. snd r = tbl) rules = [] then Some ((ip, tbl) # rules) else None
           | IpRuleDel ip tbl \<Rightarrow> Some (remove1 (ip, tbl) rules)
           | _ \<Rightarrow> Some rules))"

text \<open>The installed rules follow the tracker's stored addresses: the log replays to the
  installed rules, and each table holds no rule or the one rule of the stored address.\<close>

definition log_ok :: "kernel \<Rightarrow> bool" where
  "log_ok k = (replay_rules (shell_log k) = Some (ip_rules k))"

definition rules_follow :: "string \<Rightarrow> string \<Rightarrow> kernel \<Rightarrow> bool" where
  "rules_follow ip tunnelLocal k =
     (replay_rules (shell_log k) = Some (ip_rules k) \<and>
      (table_rules kRtableName k = [] \<or>
       ip \<noteq> [] \<and> table_rules kRtableName k = [(ip, kRtableName)]) \<and>
      (table_rules kVpnOnlyRtableName k = [] \<or>
       tunnelLocal \<noteq> [] \<and> table_rules kVpnOnlyRtableName k = [(tunnelLocal, kVpnOnlyRtableName)]))"

definition rules_inv :: "proc_tracker \<times> kernel \<Rightarrow> bool" where
  "rules_inv tk =
     rules_follow (ipAddress (previousNetScan (fst tk)))
       (previousTunnelDeviceLocalAddress (fst tk)) (snd tk)"

section \<open>Concrete scenarios\<close>

text \<open>A freshly booted kernel: every process in the parent cgroup, no source-IP rule,
  no route, strict reverse-path filtering.\<close>

definition boot_kernel :: kernel where
  "boot_kernel =
     \<lparr>cgroup_of = (\<lambda>_. ParentVpnExclusionsFile), ip_rules = [],
      default_route = (\<lambda>_. None), transIp_rules = [], tagPkts_enabled = False,
      transIp_enabled = False, rp_filter = ''1'', open_socks = [], shell_log = []\<rparr>"

text \<open>Process 5 runs \<^verbatim>\<open>/usr/bin/foo\<close> and has the child 6, a shell.\<close>

definition family_proc :: procfs where
  "family_proc =
     \<lparr>proc_entries = [5, 6],
      proc_exe = (\<lambda>p. if p = 5 then ''/usr/bin/foo'' else if p = 6 then ''/bin/sh'' else []),
      proc_ppid = (\<lambda>p. if p = 5 then Some 1 else if p = 6 then Some 5 else None)\<rparr>"

text \<open>An inconsistent snapshot: the status files of 5 and 6 name each other as parent.\<close>

definition cyclic_proc :: procfs where
  "cyclic_proc =
     \<lparr>proc_entries = [5, 6], proc_exe = (\<lambda>p. ''/usr/bin/foo''),
      proc_ppid = (\<lambda>p. if p = 5 then Some 6 else if p = 6 then Some 5 else None)\<rparr>"

text \<open>Outcomes of the system calls, and configurations handed to the tracker.\<close>

definition ok_calls :: syscalls where
  "ok_calls = \<lparr>socket_ret = 7, bind_ret = 0, send_ret = 0, sysctl_exit = 0\<rparr>"

definition bind_fails :: syscalls where
  "bind_fails = \<lparr>socket_ret = 7, bind_ret = - 1, send_ret = 0, sysctl_exit = 0\<rparr>"

definition home_scan :: net_scan where
  "home_scan = \<lparr>gatewayIp = ''192.168.1.1'', interfaceName = ''eth0'', ipAddress = ''192.168.1.2''\<rparr>"

definition exclude_foo :: firewall_params where
  "exclude_foo = \<lparr>splitTunnelNetScan = home_scan, excludeApps = [''/usr/bin/foo''], vpnOnlyApps = []\<rparr>"

definition vpn_only_foo :: firewall_params where
  "vpn_only_foo = \<lparr>splitTunnelNetScan = home_scan, excludeApps = [], vpnOnlyApps = [''/usr/bin/foo'']\<rparr>"

definition both_foo :: firewall_params where
  "both_foo = \<lparr>splitTunnelNetScan = home_scan, excludeApps = [''/usr/bin/foo''], vpnOnlyApps = [''/usr/bin/foo'']\<rparr>"

definition offline_foo :: firewall_params where
  "offline_foo = \<lparr>splitTunnelNetScan = empty_scan, excludeApps = [''/usr/bin/foo''], vpnOnlyApps = []\<rparr>"

text \<open>The uplink moves to another network.\<close>

definition roaming_foo :: firewall_params where
  "roaming_foo =
     \<lparr>splitTunnelNetScan =
        \<lparr>gatewayIp = ''10.1.1.1'', interfaceName = ''wlan0'', ipAddress = ''10.1.1.5''\<rparr>,
      excludeApps = [''/usr/bin/foo''], vpnOnlyApps = []\<rparr>"

text \<open>\<^verbatim>\<open>/usr/bin/foo\<close> bypasses the VPN and \<^verbatim>\<open>/bin/sh\<close> is VPN-only; process 5 has
  replaced its image by \<^verbatim>\<open>/bin/sh\<close>; a process 8 has started \<^verbatim>\<open>/usr/bin/foo\<close>.\<close>

definition foo_and_sh :: firewall_params where
  "foo_and_sh =
     \<lparr>splitTunnelNetScan = home_scan, excludeApps = [''/usr/bin/foo''],
      vpnOnlyApps = [''/bin/sh'']\<rparr>"

definition exec_proc :: procfs where
  "exec_proc =
     \<lparr>proc_entries = [5, 6], proc_exe = (\<lambda>p. if p = 5 \<or> p = 6 then ''/bin/sh'' else []),
      proc_ppid = (\<lambda>p. if p = 5 then Some 1 else if p = 6 then Some 5 else None)\<rparr>"

definition launch_proc :: procfs where
  "launch_proc =
     \<lparr>proc_entries = [5, 6, 8],
      proc_exe = (\<lambda>p. if p = 5 \<or> p = 8 then ''/usr/bin/foo'' else if p = 6 then ''/bin/sh'' else []),
      proc_ppid = (\<lambda>p. if p = 5 \<or> p = 8 then Some 1 else if p = 6 then Some 5 else None)\<rparr>"

text \<open>Later still: process 8 runs \<^verbatim>\<open>/usr/bin/foo\<close>; its child 9 is a shell, whose child 10
  runs \<^verbatim>\<open>/bin/cat\<close>.\<close>

definition lineage_proc :: procfs where
  "lineage_proc =
     \<lparr>proc_entries = [5, 6, 8, 9, 10],
      proc_exe = (\<lambda>p. if p = 5 \<or> p = 8 then ''/usr/bin/foo''
                      else if p = 6 \<or> p = 9 then ''/bin/sh''
                      else if p = 10 then ''/bin/cat'' else []),
      proc_ppid = (\<lambda>p. if p = 5 \<or> p = 8 then Some 1 else if p = 6 then Some 5
                       else if p = 9 then Some 8 else if p = 10 then Some 9 else None)\<rparr>"

subsection \<open>Runs of the scenarios\<close>

text \<open>The observable kernel state at the processes 5 and 6: cgroup memberships, the default
  routes of the two tables, the source-IP rules and the masquerade anchor.\<close>

definition observable ::
  "kernel \<Rightarrow> cgroup_file list \<times> (string \<times> string) option list \<times> (string \<times> rtable) list \<times> string list"
where
  "observable k =
     (map (cgroup_of k) [5, 6], map (default_route k) [kRtableName, kVpnOnlyRtableName],
      ip_rules k, transIp_rules k)"

text \<open>\<^verbatim>\<open>rp_filter\<close> is rewritten from outside the daemon.\<close>

definition rewrite_rp_filter :: "string \<Rightarrow> proc_tracker \<times> kernel \<Rightarrow> proc_tracker \<times> kernel" where
  "rewrite_rp_filter v tk = (fst tk, (snd tk)\<lparr>rp_filter := v\<rparr>)"

text \<open>A session that excludes \<^verbatim>\<open>/usr/bin/foo\<close>, its shutdown, and a second session with the
  same parameters.\<close>

definition first_session :: "(proc_tracker \<times> kernel) option" where
  "first_session =
     initiateConnection (Suc (Suc 0)) family_proc family_proc ok_calls exclude_foo ''tun0'' ''10.0.0.2''
       ''10.0.0.1'' (initial_tracker, boot_kernel)"

definition after_first_session :: "(proc_tracker \<times> kernel) option" where
  "after_first_session = Option.bind first_session (shutdownConnection (Suc (Suc 0)) family_proc)"

definition second_session :: "(proc_tracker \<times> kernel) option" where
  "second_session =
     Option.bind after_first_session
       (initiateConnection (Suc (Suc 0)) family_proc family_proc ok_calls exclude_foo ''tun0'' ''10.0.0.2''
          ''10.0.0.1'')"

text \<open>Before the second session an administrator has switched \<^verbatim>\<open>rp_filter\<close> to loose
  mode.\<close>

definition loose_second_session :: "(proc_tracker \<times> kernel) option" where
  "loose_second_session =
     Option.bind (map_option (rewrite_rp_filter ''2'') after_first_session)
       (initiateConnection (Suc (Suc 0)) family_proc family_proc ok_calls exclude_foo ''tun0'' ''10.0.0.2''
          ''10.0.0.1'')"

text \<open>A session in which \<^verbatim>\<open>/usr/bin/foo\<close> is VPN-only, and the update that moves it to the
  excluded list.\<close>

definition vpn_only_session :: "(proc_tracker \<times> kernel) option" where
  "vpn_only_session =
     initiateConnection (Suc (Suc 0)) family_proc family_proc ok_calls vpn_only_foo ''tun0'' ''10.0.0.2''
       ''10.0.0.1'' (initial_tracker, boot_kernel)"

definition move_foo_to_bypass :: "proc_tracker \<times> kernel \<Rightarrow> (proc_tracker \<times> kernel) option" where
  "move_foo_to_bypass =
     updateSplitTunnel (Suc (Suc 0)) family_proc family_proc exclude_foo ''tun0'' ''10.0.0.2'' ''10.0.0.1''
       (excludeApps exclude_foo) (vpnOnlyApps exclude_foo)"

section \<open>Loops\<close>

lemma for_each_invariant:
  assumes "for_each body xs s = Some s'" and "P s"
    and "\<And>x s s'. x \<in> set xs \<Longrightarrow> P s \<Longrightarrow> body x s = Some s' \<Longrightarrow> P s'"
  shows "P s'"
  using assms
proof (induction xs arbitrary: s)
  case Nil
  then show ?case by simp
next
  case (Cons x xs)
  from Cons.prems(1) obtain s1 where b: "body x s = Some s1" and r: "for_each body xs s1 = Some s'"
    by (auto split: option.splits)
  have p1: "P s1" using Cons.prems(3) [of x s s1] Cons.prems(2) b by simp
  show ?case
  proof (rule Cons.IH [OF r p1])
    fix y t t' assume "y \<in> set xs" "P t" "body y t = Some t'"
    then show "P t'" using Cons.prems(3) [of y t t'] by simp
  qed
qed

lemma for_each_returns:
  assumes "\<And>x s. x \<in> set xs \<Longrightarrow> \<exists>s'. body x s = Some s'"
  shows "\<exists>s'. for_each body xs s = Some s'"
  using assms
proof (induction xs arbitrary: s)
  case Nil
  then show ?case by simp
next
  case (Cons x xs)
  then obtain s1 where "body x s = Some s1" by (meson list.set_intros(1))
  moreover have "\<exists>s'. for_each body xs s1 = Some s'" using Cons by simp
  ultimately show ?case by simp
qed

section \<open>The recursion over descendants\<close>

lemma removePidFromCgroup_eq:
  "removePidFromCgroup depth fs pid cg k = addPidToCgroup depth fs pid cg k"
proof (induction depth arbitrary: pid k)
  case 0
  then show ?case by simp
next
  case (Suc depth)
  have "(\<lambda>c k'. removePidFromCgroup depth fs c cg k') = (\<lambda>c k'. addPidToCgroup depth fs c cg k')"
    by (intro ext) (rule Suc.IH)
  then show ?case by simp
qed

lemma addPidToCgroup_returns:
  assumes "\<And>p c. c \<in> set (childPidsOf fs p) \<Longrightarrow> rank c < (rank p :: nat)"
  shows "rank pid < depth \<Longrightarrow> \<exists>k'. addPidToCgroup depth fs pid cg k = Some k'"
proof (induction depth arbitrary: pid k)
  case 0
  then show ?case by simp
next
  case (Suc depth)
  have "\<exists>k'. for_each (\<lambda>c k'. addPidToCgroup depth fs c cg k') (childPidsOf fs pid)
          (writePidToCGroup pid cg k) = Some k'"
  proof (rule for_each_returns)
    fix c s assume "c \<in> set (childPidsOf fs pid)"
    then have "rank c < depth" using assms [of c pid] Suc.prems by simp
    then show "\<exists>s'. addPidToCgroup depth fs c cg s = Some s'" by (rule Suc.IH)
  qed
  then show ?case by simp
qed

lemma for_each_stuck:
  assumes "x \<in> set xs" and "\<And>s. body x s = None"
  shows "for_each body xs s = None"
  using assms(1)
proof (induction xs arbitrary: s)
  case Nil
  then show ?case by simp
next
  case (Cons y ys)
  show ?case
  proof (cases "body y s")
    case None
    then show ?thesis by simp
  next
    case (Some s1)
    then have "x \<noteq> y" using assms(2) [of s] by auto
    then have "x \<in> set ys" using Cons.prems by simp
    then show ?thesis using Cons.IH Some by simp
  qed
qed

lemma addPidToCgroup_stuck_on_cycle:
  assumes "\<And>p. p \<in> C \<Longrightarrow> \<exists>c \<in> set (childPidsOf fs p). c \<in> C"
  shows "pid \<in> C \<Longrightarrow> addPidToCgroup depth fs pid cg k = None"
proof (induction depth arbitrary: pid k)
  case 0
  then show ?case by simp
next
  case (Suc depth)
  obtain c where c: "c \<in> set (childPidsOf fs pid)" "c \<in> C" using assms Suc.prems by blast
  have "for_each (\<lambda>c k'. addPidToCgroup depth fs c cg k') (childPidsOf fs pid)
          (writePidToCGroup pid cg k) = None"
    by (rule for_each_stuck [OF c(1)]) (rule Suc.IH [OF c(2)])
  then show ?case by simp
qed

lemma cyclic_children:
  "childPidsOf cyclic_proc 5 = [6]" "childPidsOf cyclic_proc 6 = [5]"
  by (simp_all add: childPidsOf_def filterPids_def isChildOf_def cyclic_proc_def)

lemma cyclic_never_returns:
  "addPidToCgroup depth cyclic_proc 5 cg k = None \<and>
   addPidToCgroup depth cyclic_proc 6 cg k = None"
  by (induction depth arbitrary: k) (simp_all add: cyclic_children)

section \<open>Cgroup writes\<close>

lemma writes_only_to_refl: "writes_only_to cg k k"
  unfolding writes_only_to_def by (auto intro: exI [of _ "cgroup_of k"])

lemma writes_only_to_trans:
  "writes_only_to cg k k1 \<Longrightarrow> writes_only_to cg k1 k2 \<Longrightarrow> writes_only_to cg k k2"
  unfolding writes_only_to_def by (metis kernel.update_convs(1) kernel.select_convs(1) kernel.surjective)

lemma writes_only_to_write: "writes_only_to cg k (writePidToCGroup pid cg k)"
  unfolding writes_only_to_def writePidToCGroup_def by auto

lemma writes_only_to_keeps:
  "writes_only_to cg k k' \<Longrightarrow> cgroup_of k q = cg \<Longrightarrow> cgroup_of k' q = cg"
  unfolding writes_only_to_def by metis

lemma for_each_establishes:
  assumes "for_each body xs s = Some s'" and "x \<in> set xs"
    and "\<And>s s'. body x s = Some s' \<Longrightarrow> G s'"
    and "\<And>y s s'. y \<in> set xs \<Longrightarrow> G s \<Longrightarrow> body y s = Some s' \<Longrightarrow> G s'"
  shows "G s'"
  using assms
proof (induction xs arbitrary: s)
  case Nil
  then show ?case by simp
next
  case (Cons y ys)
  from Cons.prems(1) obtain s1 where b: "body y s = Some s1" and r: "for_each body ys s1 = Some s'"
    by (auto split: option.splits)
  show ?case
  proof (cases "x = y")
    case True
    then have g1: "G s1" using b Cons.prems(3) by simp
    show ?thesis
    proof (rule for_each_invariant [OF r, of G, OF g1])
      fix z t t' assume "z \<in> set ys" "G t" "body z t = Some t'"
      then show "G t'" using Cons.prems(4) [of z t t'] by simp
    qed
  next
    case False
    then have xs: "x \<in> set ys" using Cons.prems(2) by simp
    show ?thesis
    proof (rule Cons.IH [OF r xs])
      fix t t' assume "body x t = Some t'"
      then show "G t'" by (rule Cons.prems(3))
    next
      fix z t t' assume "z \<in> set ys" "G t" "body z t = Some t'"
      then show "G t'" using Cons.prems(4) [of z t t'] by simp
    qed
  qed
qed

lemma addPidToCgroup_writes:
  "addPidToCgroup depth fs pid cg k = Some k' \<Longrightarrow>
     writes_only_to cg k k' \<and> cgroup_of k' pid = cg \<and>
     (\<forall>c \<in> set (childPidsOf fs pid). cgroup_of k' c = cg)"
proof (induction depth arbitrary: pid k k')
  case 0
  then show ?case by simp
next
  case (Suc depth)
  let ?k1 = "writePidToCGroup pid cg k"
  let ?body = "\<lambda>c k'. addPidToCgroup depth fs c cg k'"
  from Suc.prems have loop: "for_each ?body (childPidsOf fs pid) ?k1 = Some k'" by simp
  have w1: "writes_only_to cg ?k1 k'"
    by (rule for_each_invariant [OF loop, of "writes_only_to cg ?k1"])
       (auto intro: writes_only_to_refl writes_only_to_trans dest: Suc.IH)
  have "cgroup_of ?k1 pid = cg" by (simp add: writePidToCGroup_def)
  then have own: "cgroup_of k' pid = cg" using w1 by (rule writes_only_to_keeps [rotated])
  have kids: "cgroup_of k' c = cg" if "c \<in> set (childPidsOf fs pid)" for c
  proof (rule for_each_establishes [OF loop that, of "\<lambda>k. cgroup_of k c = cg"])
    fix s s' assume "addPidToCgroup depth fs c cg s = Some s'"
    then show "cgroup_of s' c = cg" using Suc.IH by blast
  next
    fix y s s' assume "cgroup_of s c = cg" "addPidToCgroup depth fs y cg s = Some s'"
    then show "cgroup_of s' c = cg" using Suc.IH writes_only_to_keeps by blast
  qed
  show ?case using w1 own kids writes_only_to_trans [OF writes_only_to_write w1] by simp
qed

lemma addPidToCgroup_descendants:
  "addPidToCgroup depth fs pid cg k = Some k' \<Longrightarrow> descendant fs pid q \<Longrightarrow> cgroup_of k' q = cg"
proof (induction depth arbitrary: pid k k')
  case 0
  then show ?case by simp
next
  case (Suc depth)
  let ?k1 = "writePidToCGroup pid cg k"
  let ?body = "\<lambda>c k'. addPidToCgroup depth fs c cg k'"
  from Suc.prems(1) have loop: "for_each ?body (childPidsOf fs pid) ?k1 = Some k'" by simp
  from Suc.prems(2) show ?case
  proof (cases rule: descendant.cases)
    case self
    then show ?thesis using addPidToCgroup_writes [OF Suc.prems(1)] by simp
  next
    case (child c)
    show ?thesis
    proof (rule for_each_establishes [OF loop child(1), of "\<lambda>k. cgroup_of k q = cg"])
      fix s s' assume "addPidToCgroup depth fs c cg s = Some s'"
      then show "cgroup_of s' q = cg" using child(2) by (rule Suc.IH)
    next
      fix y s s' assume "cgroup_of s q = cg" "addPidToCgroup depth fs y cg s = Some s'"
      then show "cgroup_of s' q = cg" using addPidToCgroup_writes writes_only_to_keeps by blast
    qed
  qed
qed

lemma for_each_fst:
  assumes "for_each body xs (m, k) = Some (m', k')"
    and "\<And>x m k m' k'. x \<in> set xs \<Longrightarrow> body x (m, k) = Some (m', k') \<Longrightarrow> m' = g x m"
  shows "m' = fold g xs m"
  using assms
proof (induction xs arbitrary: m k)
  case Nil
  then show ?case by simp
next
  case (Cons x xs)
  from Cons.prems(1) obtain m1 k1 where b: "body x (m, k) = Some (m1, k1)"
    and r: "for_each body xs (m1, k1) = Some (m', k')"
    by (auto split: option.splits)
  have "m1 = g x m" using Cons.prems(2) [of x m k m1 k1] b by simp
  moreover have "m' = fold g xs m1" using Cons.IH [OF r] Cons.prems(2) by simp
  ultimately show ?case by simp
qed

lemma for_each_snd:
  assumes "for_each body xs (m, k) = Some (m', k')"
    and "\<And>k. R k k" and "\<And>a b c. R a b \<Longrightarrow> R b c \<Longrightarrow> R a c"
    and "\<And>x m k m' k'. x \<in> set xs \<Longrightarrow> body x (m, k) = Some (m', k') \<Longrightarrow> R k k'"
  shows "R k k'"
proof -
  have "R k (snd (m', k'))"
  proof (rule for_each_invariant [OF assms(1), of "\<lambda>s. R k (snd s)"])
    show "R k (snd (m, k))" using assms(2) by simp
  next
    fix x s s' assume a: "x \<in> set xs" "R k (snd s)" "body x s = Some s'"
    then have "R (snd s) (snd s')" using assms(4) [of x "fst s" "snd s" "fst s'" "snd s'"] by simp
    then show "R k (snd s')" using a(2) assms(3) by blast
  qed
  then show ?thesis by simp
qed

section \<open>The two phases of the reconciliation\<close>

lemma removePidFromCgroup_writes:
  "removePidFromCgroup depth fs pid cg k = Some k' \<Longrightarrow> writes_only_to cg k k'"
  by (simp add: removePidFromCgroup_eq addPidToCgroup_writes)

lemma fold_delete_unkept:
  "fold (\<lambda>app m. if app \<notin> set keepApps then AList.delete app m else m) keys m =
     filter (\<lambda>(app, pids). app \<in> set keepApps \<or> app \<notin> set keys) m"
proof (induction keys arbitrary: m)
  case Nil
  then show ?case by simp
next
  case (Cons key keys)
  show ?case
    by (auto simp add: Cons.IH AList.delete_eq case_prod_unfold intro!: filter_cong)
qed

lemma removeApps_map:
  assumes "removeApps depth fs keepApps (m, k) = Some (m', k')"
  shows "m' = filter (\<lambda>(app, pids). app \<in> set keepApps) m"
proof -
  let ?g = "\<lambda>app m. if app \<notin> set keepApps then AList.delete app m else m"
  have "m' = fold ?g (map fst m) m"
    by (rule for_each_fst [OF assms [unfolded removeApps_def fst_conv]])
       (auto split: if_splits Option.bind_splits)
  also have "\<dots> = filter (\<lambda>(app, pids). app \<in> set keepApps \<or> app \<notin> set (map fst m)) m"
    by (rule fold_delete_unkept)
  also have "\<dots> = filter (\<lambda>(app, pids). app \<in> set keepApps) m"
    by (rule filter_cong) (auto simp: rev_image_eqI)
  finally show ?thesis .
qed

lemma removeApps_kernel:
  assumes "removeApps depth fs keepApps (m, k) = Some (m', k')"
  shows "writes_only_to ParentVpnExclusionsFile k k'"
proof (rule for_each_snd [OF assms [unfolded removeApps_def fst_conv]])
  show "writes_only_to ParentVpnExclusionsFile k k" for k by (rule writes_only_to_refl)
next
  show "writes_only_to ParentVpnExclusionsFile a b \<Longrightarrow> writes_only_to ParentVpnExclusionsFile b c
     \<Longrightarrow> writes_only_to ParentVpnExclusionsFile a c" for a b c by (rule writes_only_to_trans)
next
  fix app m1 k1 m2 k2
  assume b: "(case (m1, k1) of (appMap, k) \<Rightarrow>
        if app \<notin> set keepApps
        then do {
          k' \<leftarrow> for_each (\<lambda>pid k. removePidFromCgroup depth fs pid ParentVpnExclusionsFile k)
                  (app_pids appMap app) k;
          Some (AList.delete app appMap, k')
        }
        else Some (appMap, k)) = Some (m2, k2)"
  show "writes_only_to ParentVpnExclusionsFile k1 k2"
  proof (cases "app \<in> set keepApps")
    case True
    then show ?thesis using b by (simp add: writes_only_to_refl)
  next
    case False
    then have loop: "for_each (\<lambda>pid k. removePidFromCgroup depth fs pid ParentVpnExclusionsFile k)
        (app_pids m1 app) k1 = Some k2"
      using b by (auto split: Option.bind_splits)
    show ?thesis
      by (rule for_each_invariant [OF loop, of "writes_only_to ParentVpnExclusionsFile k1"])
         (auto intro: writes_only_to_refl writes_only_to_trans dest: removePidFromCgroup_writes)
  qed
qed

lemma set_fold_insert: "set (fold List.insert pids acc) = set pids \<union> set acc"
  by (induction pids arbitrary: acc) auto

lemma map_of_fold_insert_pid:
  "map_of (fold (app_insert_pid app) pids m) =
     (map_of m)(app \<mapsto> fold List.insert pids (app_pids m app))" if "app_contains m app"
  using that
proof (induction pids arbitrary: m)
  case Nil
  then show ?case by (auto simp: app_pids_def app_contains_def fun_eq_iff)
next
  case (Cons pid pids)
  have c: "app_contains (app_insert_pid app pid m) app"
    by (simp add: app_contains_def app_insert_pid_def AList.update_conv')
  have p: "app_pids (app_insert_pid app pid m) app = List.insert pid (app_pids m app)"
    by (simp add: app_pids_def app_insert_pid_def AList.update_conv')
  show ?case
    by (simp add: Cons.IH [OF c] p) (auto simp add: app_insert_pid_def AList.update_conv' fun_eq_iff)
qed

lemma tracked_pids_scan_app:
  "tracked_pids (scan_app fs app m) a =
     (if a = app then Some (set (pidsForPath fs app)) else tracked_pids m a)"
proof -
  have c: "app_contains (AList.update app [] m) app"
    by (simp add: app_contains_def AList.update_conv')
  have p: "app_pids (AList.update app [] m) app = []"
    by (simp add: app_pids_def AList.update_conv')
  show ?thesis
    by (simp add: tracked_pids_def scan_app_def map_of_fold_insert_pid [OF c] p set_fold_insert
        AList.update_conv')
qed

lemma tracked_pids_fold_scan_app:
  "tracked_pids (fold (scan_app fs) apps m) a =
     (if a \<in> set apps then Some (set (pidsForPath fs a)) else tracked_pids m a)"
  by (induction apps arbitrary: m) (auto simp: tracked_pids_scan_app)

lemma addApps_scan_loop:
  assumes "for_each
            (\<lambda>pid (appMap, k). do {
               k' \<leftarrow> addPidToCgroup depth fs pid cg k;
               Some (app_insert_pid app pid appMap, k')
             }) pids (m, k) = Some (m', k')"
  shows "m' = fold (app_insert_pid app) pids m" and "writes_only_to cg k k'"
    and "pid \<in> set pids \<Longrightarrow> \<forall>q. descendant fs pid q \<longrightarrow> cgroup_of k' q = cg"
proof -
  show "m' = fold (app_insert_pid app) pids m"
    by (rule for_each_fst [OF assms]) (auto split: Option.bind_splits)
  show "writes_only_to cg k k'"
    by (rule for_each_snd [OF assms])
       (auto intro: writes_only_to_refl writes_only_to_trans dest: addPidToCgroup_writes
          split: Option.bind_splits)
  show "\<forall>q. descendant fs pid q \<longrightarrow> cgroup_of k' q = cg"
    if "pid \<in> set pids"
  proof -
    let ?G = "\<lambda>s. \<forall>q. descendant fs pid q \<longrightarrow> cgroup_of (snd s) q = cg"
    have "?G (m', k')"
    proof (rule for_each_establishes [OF assms that, of ?G])
      fix s s'
      assume "(case s of (appMap, k) \<Rightarrow> do {
               k' \<leftarrow> addPidToCgroup depth fs pid cg k;
               Some (app_insert_pid app pid appMap, k')
             }) = Some s'"
      then have "addPidToCgroup depth fs pid cg (snd s) = Some (snd s')"
        by (auto split: Option.bind_splits prod.splits)
      then show "?G s'" using addPidToCgroup_descendants by blast
    next
      fix y s s'
      assume g: "?G s" and "(case s of (appMap, k) \<Rightarrow> do {
               k' \<leftarrow> addPidToCgroup depth fs y cg k;
               Some (app_insert_pid app y appMap, k')
             }) = Some s'"
      then have "addPidToCgroup depth fs y cg (snd s) = Some (snd s')"
        by (auto split: Option.bind_splits prod.splits)
      then have "writes_only_to cg (snd s) (snd s')" using addPidToCgroup_writes by blast
      then show "?G s'" using g writes_only_to_keeps by blast
    qed
    then show ?thesis by simp
  qed
qed

lemma addApps_map:
  assumes "addApps depth fs apps cg (m, k) = Some (m', k')"
  shows "m' = fold (scan_app fs) apps m"
  by (rule for_each_fst [OF assms [unfolded addApps_def]])
     (auto simp: scan_app_def dest: addApps_scan_loop(1))

lemma addApps_kernel:
  assumes "addApps depth fs apps cg (m, k) = Some (m', k')"
  shows "writes_only_to cg k k'"
  by (rule for_each_snd [OF assms [unfolded addApps_def]])
     (auto intro: writes_only_to_refl writes_only_to_trans dest: addApps_scan_loop(2))

lemma addApps_cgroup:
  assumes "addApps depth fs apps cg (m, k) = Some (m', k')"
    and "app \<in> set apps" and "pid \<in> set (pidsForPath fs app)"
  shows "\<forall>q. descendant fs pid q \<longrightarrow> cgroup_of k' q = cg"
proof -
  let ?G = "\<lambda>s. \<forall>q. descendant fs pid q \<longrightarrow> cgroup_of (snd s) q = cg"
  have "?G (m', k')"
  proof (rule for_each_establishes [OF assms(1) [unfolded addApps_def] assms(2), of ?G])
    fix s s'
    assume "(case s of (appMap, k) \<Rightarrow>
          for_each
            (\<lambda>pid (appMap, k). do {
               k' \<leftarrow> addPidToCgroup depth fs pid cg k;
               Some (app_insert_pid app pid appMap, k')
             })
            (pidsForPath fs app) (AList.update app [] appMap, k)) = Some s'"
    then show "?G s'"
      using addApps_scan_loop(3) [of depth fs cg app "pidsForPath fs app" _ "snd s" "fst s'" "snd s'" pid] assms(3)
      by (auto split: prod.splits)
  next
    fix y s s'
    assume g: "?G s" and "(case s of (appMap, k) \<Rightarrow>
          for_each
            (\<lambda>pid (appMap, k). do {
               k' \<leftarrow> addPidToCgroup depth fs pid cg k;
               Some (app_insert_pid y pid appMap, k')
             })
            (pidsForPath fs y) (AList.update y [] appMap, k)) = Some s'"
    then have "writes_only_to cg (snd s) (snd s')"
      using addApps_scan_loop(2) [of depth fs cg y "pidsForPath fs y" _ "snd s" "fst s'" "snd s'"]
      by (auto split: prod.splits)
    then show "?G s'" using g writes_only_to_keeps by blast
  qed
  then show ?thesis by simp
qed

section \<open>What each operation changes\<close>

lemma same_but_cgroups_refl: "same_but_cgroups k k"
  unfolding same_but_cgroups_def by (rule exI [of _ "cgroup_of k"]) simp

lemma same_but_cgroups_trans:
  "same_but_cgroups k k1 \<Longrightarrow> same_but_cgroups k1 k2 \<Longrightarrow> same_but_cgroups k k2"
  unfolding same_but_cgroups_def by auto

lemma writes_only_to_same: "writes_only_to cg k k' \<Longrightarrow> same_but_cgroups k k'"
  unfolding same_but_cgroups_def writes_only_to_def by simp

lemma same_but_cgroups_fields:
  assumes "same_but_cgroups k k'"
  shows "ip_rules k' = ip_rules k" "shell_log k' = shell_log k" "rp_filter k' = rp_filter k"
    "default_route k' = default_route k" "transIp_rules k' = transIp_rules k"
    "open_socks k' = open_socks k" "tagPkts_enabled k' = tagPkts_enabled k"
    "transIp_enabled k' = transIp_enabled k"
  using assms unfolding same_but_cgroups_def by auto

lemma tracked_pids_filter:
  "tracked_pids (filter (\<lambda>(app, pids). app \<in> set keepApps) m) a =
     (if a \<in> set keepApps then tracked_pids m a else None)"
  by (induction m) (auto simp: tracked_pids_def)

lemma updateApps_parts:
  assumes "updateApps depth fsE fsV excludedApps vpnOnlyApps' (t, k) = Some (t', k')"
  obtains em k1 k2 vm k3 where
    "removeApps depth fsE (if \<not> isValid (previousNetScan t) then [] else excludedApps)
       (exclusionsMap t, k) = Some (em, k1)"
    "addApps depth fsE (if \<not> isValid (previousNetScan t) then [] else excludedApps)
       VpnExclusionsFile (em, k1) = Some (exclusionsMap t', k2)"
    "removeApps depth fsV vpnOnlyApps' (vpnOnlyMap t, k2) = Some (vm, k3)"
    "addApps depth fsV vpnOnlyApps' VpnOnlyFile (vm, k3) = Some (vpnOnlyMap t', k')"
    "t' = t\<lparr>exclusionsMap := exclusionsMap t', vpnOnlyMap := vpnOnlyMap t'\<rparr>"
  using assms unfolding updateApps_def Let_def
  by (auto split: Option.bind_splits)

lemma updateApps_frame:
  assumes "updateApps depth fsE fsV excludedApps vpnOnlyApps' (t, k) = Some (t', k')"
  shows "same_but_cgroups k k'"
    and "t' = t\<lparr>exclusionsMap := exclusionsMap t', vpnOnlyMap := vpnOnlyMap t'\<rparr>"
proof -
  from assms obtain em k1 k2 vm k3 where
    a: "removeApps depth fsE (if \<not> isValid (previousNetScan t) then [] else excludedApps)
       (exclusionsMap t, k) = Some (em, k1)"
    and b: "addApps depth fsE (if \<not> isValid (previousNetScan t) then [] else excludedApps)
       VpnExclusionsFile (em, k1) = Some (exclusionsMap t', k2)"
    and c: "removeApps depth fsV vpnOnlyApps' (vpnOnlyMap t, k2) = Some (vm, k3)"
    and d: "addApps depth fsV vpnOnlyApps' VpnOnlyFile (vm, k3) = Some (vpnOnlyMap t', k')"
    and e: "t' = t\<lparr>exclusionsMap := exclusionsMap t', vpnOnlyMap := vpnOnlyMap t'\<rparr>"
    by (rule updateApps_parts)
  show "same_but_cgroups k k'"
    using removeApps_kernel [OF a] addApps_kernel [OF b] removeApps_kernel [OF c]
      addApps_kernel [OF d]
    by (blast intro: same_but_cgroups_trans writes_only_to_same)
  show "t' = t\<lparr>exclusionsMap := exclusionsMap t', vpnOnlyMap := vpnOnlyMap t'\<rparr>" by (rule e)
qed

lemma updateApps_maps:
  assumes "updateApps depth fsE fsV excludedApps vpnOnlyApps' (t, k) = Some (t', k')"
  shows "tracked_pids (exclusionsMap t') a =
           (if isValid (previousNetScan t) \<and> a \<in> set excludedApps
            then Some (set (pidsForPath fsE a)) else None)"
    and "tracked_pids (vpnOnlyMap t') a =
           (if a \<in> set vpnOnlyApps' then Some (set (pidsForPath fsV a)) else None)"
    and "\<not> isValid (previousNetScan t) \<Longrightarrow> exclusionsMap t' = []"
proof -
  from assms obtain em k1 k2 vm k3 where
    a: "removeApps depth fsE (if \<not> isValid (previousNetScan t) then [] else excludedApps)
       (exclusionsMap t, k) = Some (em, k1)"
    and b: "addApps depth fsE (if \<not> isValid (previousNetScan t) then [] else excludedApps)
       VpnExclusionsFile (em, k1) = Some (exclusionsMap t', k2)"
    and c: "removeApps depth fsV vpnOnlyApps' (vpnOnlyMap t, k2) = Some (vm, k3)"
    and d: "addApps depth fsV vpnOnlyApps' VpnOnlyFile (vm, k3) = Some (vpnOnlyMap t', k')"
    by (rule updateApps_parts)
  show "tracked_pids (exclusionsMap t') a =
           (if isValid (previousNetScan t) \<and> a \<in> set excludedApps
            then Some (set (pidsForPath fsE a)) else None)"
    by (simp add: addApps_map [OF b] removeApps_map [OF a] tracked_pids_fold_scan_app
        tracked_pids_filter)
  show "tracked_pids (vpnOnlyMap t') a =
           (if a \<in> set vpnOnlyApps' then Some (set (pidsForPath fsV a)) else None)"
    by (simp add: addApps_map [OF d] removeApps_map [OF c] tracked_pids_fold_scan_app
        tracked_pids_filter)
  show "exclusionsMap t' = []" if "\<not> isValid (previousNetScan t)"
    using that by (simp add: addApps_map [OF b] removeApps_map [OF a])
qed

lemma removeAllApps_result:
  assumes "removeAllApps depth fs (t, k) = Some (t', k')"
  shows "t' = t\<lparr>exclusionsMap := [], vpnOnlyMap := []\<rparr>" and "same_but_cgroups k k'"
proof -
  from assms obtain em k1 vm where
    a: "removeApps depth fs [] (exclusionsMap t, k) = Some (em, k1)"
    and b: "removeApps depth fs [] (vpnOnlyMap t, k1) = Some (vm, k')"
    and c: "t' = t\<lparr>exclusionsMap := [], vpnOnlyMap := []\<rparr>"
    unfolding removeAllApps_def by (auto split: Option.bind_splits)
  show "t' = t\<lparr>exclusionsMap := [], vpnOnlyMap := []\<rparr>" by (rule c)
  show "same_but_cgroups k k'"
    using removeApps_kernel [OF a] removeApps_kernel [OF b]
    by (blast intro: same_but_cgroups_trans writes_only_to_same)
qed

lemma shutdownConnection_result:
  assumes "shutdownConnection depth fs (t, k) = Some (t', k')"
  obtains k1 where
    "same_but_cgroups
       (teardownFirewall (if sockFd t \<noteq> - 1 then close_fd (sockFd t) k else k)) k1"
    "k' = teardownReversePathFiltering t
            (removeRoutingPolicyForSourceIp (previousTunnelDeviceLocalAddress t) kVpnOnlyRtableName
               (removeRoutingPolicyForSourceIp (ipAddress (previousNetScan t)) kRtableName k1))"
    "t' = t\<lparr>sockFd := - 1, readNotifier := None, previousNetScan := empty_scan,
             exclusionsMap := [], vpnOnlyMap := []\<rparr>"
proof -
  let ?t0 = "if readNotifier t \<noteq> None then t\<lparr>readNotifier := None\<rparr> else t"
  let ?k0 = "teardownFirewall (if sockFd t \<noteq> - 1 then close_fd (sockFd t) k else k)"
  have t0: "?t0 = t\<lparr>readNotifier := None\<rparr>" by simp
  from assms obtain t1 k1 where
    r: "removeAllApps depth fs (?t0, ?k0) = Some (t1, k1)"
    and k': "k' = teardownReversePathFiltering t1
            (removeRoutingPolicyForSourceIp (previousTunnelDeviceLocalAddress t1) kVpnOnlyRtableName
               (removeRoutingPolicyForSourceIp (ipAddress (previousNetScan t1)) kRtableName k1))"
    and t': "t' = t1\<lparr>previousNetScan := empty_scan, sockFd := - 1\<rparr>"
    unfolding shutdownConnection_def Let_def
    by (auto split: Option.bind_splits if_splits)
  have t1: "t1 = ?t0\<lparr>exclusionsMap := [], vpnOnlyMap := []\<rparr>"
    by (rule removeAllApps_result(1) [OF r])
  show ?thesis
  proof (rule that [of k1])
    show "same_but_cgroups ?k0 k1" by (rule removeAllApps_result(2) [OF r])
    show "k' = teardownReversePathFiltering t
            (removeRoutingPolicyForSourceIp (previousTunnelDeviceLocalAddress t) kVpnOnlyRtableName
               (removeRoutingPolicyForSourceIp (ipAddress (previousNetScan t)) kRtableName k1))"
      using k' t1 by (simp add: teardownReversePathFiltering_def)
    show "t' = t\<lparr>sockFd := - 1, readNotifier := None, previousNetScan := empty_scan,
             exclusionsMap := [], vpnOnlyMap := []\<rparr>"
      using t' t1 by simp
  qed
qed

section \<open>Evaluating the concrete scenarios\<close>

lemmas proc_defs = pidsForPath_def childPidsOf_def filterPids_def isChildOf_def pathForPid_def

lemma addApps_family:
  "\<exists>k'. addApps (Suc (Suc 0)) family_proc [''/usr/bin/foo''] VpnExclusionsFile
     ([(''/usr/bin/foo'', [7]), (''/bin/other'', [9])], boot_kernel) =
       Some ([(''/usr/bin/foo'', [5]), (''/bin/other'', [9])], k')"
  by (simp add: addApps_def proc_defs family_proc_def app_insert_pid_def app_pids_def)

lemma toInt_1: "toInt ''1'' = 1"
  by (simp add: toInt_def is_space_def digit_of_def)

lemma toInt_2: "toInt ''2'' = 2"
  by (simp add: toInt_def is_space_def digit_of_def)

lemmas run_defs =
  initiateConnection_def updateSplitTunnel_def updateNetwork_def updateApps_def removeApps_def
  addApps_def shutdownConnection_def removeAllApps_def setupReversePathFiltering_def
  teardownReversePathFiltering_def setupFirewall_def teardownFirewall_def setAnchorEnabled_def
  replaceAnchor_def updateMasquerade_def updateRoutes_def addRoutingPolicyForSourceIp_def
  removeRoutingPolicyForSourceIp_def shellExecute_def subscribeToProcEvents_def close_fd_def
  addLaunchedApp_def removeTerminatedApp_def app_insert_pid_def app_pids_def app_contains_def
  isValid_def writePidToCGroup_def proc_defs initial_tracker_def boot_kernel_def empty_scan_def
  family_proc_def ok_calls_def home_scan_def exclude_foo_def vpn_only_foo_def both_foo_def
  offline_foo_def toInt_1 toInt_2 Let_def

lemma session_goes_offline:
  "\<exists>s1 s2 s3.
     initiateConnection (Suc (Suc 0)) family_proc family_proc ok_calls exclude_foo ''tun0'' ''10.0.0.2''
       ''10.0.0.1'' (initial_tracker, boot_kernel) = Some s1 \<and>
     exclusionsMap (fst s1) = [(''/usr/bin/foo'', [5])] \<and>
     previousNetScan (fst (updateNetwork offline_foo ''tun0'' ''10.0.0.2'' ''10.0.0.1'' s1)) = empty_scan \<and>
     exclusionsMap (fst (updateNetwork offline_foo ''tun0'' ''10.0.0.2'' ''10.0.0.1'' s1)) =
       [(''/usr/bin/foo'', [5])] \<and>
     addLaunchedApp (Suc (Suc 0)) launch_proc 8
       (updateNetwork offline_foo ''tun0'' ''10.0.0.2'' ''10.0.0.1'' s1) = Some s2 \<and>
     updateApps (Suc (Suc 0)) family_proc family_proc [''/usr/bin/foo''] []
       (updateNetwork offline_foo ''tun0'' ''10.0.0.2'' ''10.0.0.1'' s1) = Some s3"
  by (simp add: run_defs launch_proc_def)

lemma session_exclude_foo:
  "\<exists>tk'. initiateConnection (Suc (Suc 0)) family_proc family_proc ok_calls exclude_foo ''tun0'' ''10.0.0.2'' ''10.0.0.1''
            (initial_tracker, boot_kernel) = Some tk' \<and>
         sockFd (fst tk') = 7 \<and>
         exclusionsMap (fst tk') = [(''/usr/bin/foo'', [5])] \<and> vpnOnlyMap (fst tk') = [] \<and>
         cgroup_of (snd tk') 6 = VpnExclusionsFile \<and> cgroup_of (snd tk') 5 = VpnExclusionsFile"
  by (simp add: run_defs)

section \<open>The session operations\<close>

lemma initiateConnection_failed:
  assumes "socket_ret sys = - 1 \<or> bind_ret sys = - 1 \<or> send_ret sys = - 1"
  shows "initiateConnection depth fsE fsV sys params tunName tunLocal tunRemote tk =
           (if sockFd (fst tk) \<noteq> - 1 then shutdownConnection depth fsE tk else Some tk)"
proof -
  have c: "close_fd fd (k\<lparr>open_socks := fd # open_socks k\<rparr>) = k" for fd k
    by (simp add: close_fd_def)
  show ?thesis
    using assms
    by (cases tk; cases "shutdownConnection depth fsE tk")
       (auto simp add: initiateConnection_def subscribeToProcEvents_def c Let_def)
qed

lemma initiateConnection_started:
  assumes "initiateConnection depth fsE fsV sys params tunName tunLocal tunRemote tk = Some tk'"
    and "socket_ret sys \<noteq> - 1" "bind_ret sys \<noteq> - 1" "send_ret sys \<noteq> - 1"
  obtains t0 k0 tk1 where
    "(if sockFd (fst tk) \<noteq> - 1 then shutdownConnection depth fsE tk else Some tk) = Some (t0, k0)"
    "updateSplitTunnel depth fsE fsV params tunName tunLocal tunRemote (excludeApps params) (vpnOnlyApps params)
       (t0\<lparr>sockFd := socket_ret sys\<rparr>,
        setupFirewall (k0\<lparr>open_socks := socket_ret sys # open_socks k0\<rparr>)) = Some tk1"
    "tk' = ((fst (setupReversePathFiltering sys tk1))\<lparr>readNotifier := Some (socket_ret sys)\<rparr>,
            snd (setupReversePathFiltering sys tk1))"
  using assms unfolding initiateConnection_def subscribeToProcEvents_def Let_def
  by (auto split: Option.bind_splits if_splits)

lemma shutdownConnection_tracker:
  assumes "shutdownConnection depth fs tk = Some tk'"
  shows "fst tk' = (fst tk)\<lparr>sockFd := - 1, readNotifier := None, previousNetScan := empty_scan,
             exclusionsMap := [], vpnOnlyMap := []\<rparr>"
  using assms by (cases tk, cases tk') (auto elim: shutdownConnection_result)

lemma updateNetwork_tracker:
  "fst (updateNetwork params tunName tunLocal tunRemote tk) =
     (fst tk)\<lparr>previousNetScan := splitTunnelNetScan params,
              previousTunnelDeviceLocalAddress := tunLocal\<rparr>"
  by (simp add: updateNetwork_def Let_def)

lemma updateSplitTunnel_tracker:
  assumes "updateSplitTunnel depth fsE fsV params tunName tunLocal tunRemote ex vo tk = Some tk'"
  shows "fst tk' = (fst tk)\<lparr>previousNetScan := splitTunnelNetScan params,
              previousTunnelDeviceLocalAddress := tunLocal,
              exclusionsMap := exclusionsMap (fst tk'), vpnOnlyMap := vpnOnlyMap (fst tk')\<rparr>"
proof -
  obtain t1 k1 where u: "updateNetwork params tunName tunLocal tunRemote tk = (t1, k1)" by (cases "updateNetwork params tunName tunLocal tunRemote tk")
  obtain t' k' where tk': "tk' = (t', k')" by (cases tk')
  have a: "updateApps depth fsE fsV ex vo (t1, k1) = Some (t', k')"
    using assms u tk' by (simp add: updateSplitTunnel_def)
  have "t1 = (fst tk)\<lparr>previousNetScan := splitTunnelNetScan params,
              previousTunnelDeviceLocalAddress := tunLocal\<rparr>"
    using updateNetwork_tracker [of params tunName tunLocal tunRemote tk] u by simp
  then show ?thesis using updateApps_frame(2) [OF a] tk' by simp
qed

lemma updateSplitTunnel_gating:
  assumes "updateSplitTunnel depth fsE fsV params tunName tunLocal tunRemote ex vo tk = Some tk'"
  shows "gating tk'"
proof -
  obtain t1 k1 where u: "updateNetwork params tunName tunLocal tunRemote tk = (t1, k1)" by (cases "updateNetwork params tunName tunLocal tunRemote tk")
  obtain t' k' where tk': "tk' = (t', k')" by (cases tk')
  have a: "updateApps depth fsE fsV ex vo (t1, k1) = Some (t', k')"
    using assms u tk' by (simp add: updateSplitTunnel_def)
  have "previousNetScan t' = previousNetScan t1"
    using updateApps_frame(2) [OF a] by (metis proc_tracker.select_convs(3) proc_tracker.surjective proc_tracker.update_convs(6,7))
  then show ?thesis using updateApps_maps(3) [OF a] tk' by (simp add: gating_def)
qed

lemma setupReversePathFiltering_tracker:
  "\<exists>v. fst (setupReversePathFiltering sys tk) = (fst tk)\<lparr>previousRPFilter := v\<rparr>"
proof (cases "sysctl_exit sys = 0 \<and> toInt (rp_filter (snd tk)) = 2")
  case True
  then show ?thesis
    by (intro exI [of _ "previousRPFilter (fst tk)"]) (simp add: setupReversePathFiltering_def Let_def)
next
  case False
  then show ?thesis by (auto simp add: setupReversePathFiltering_def Let_def)
qed

lemma initiateConnection_gating:
  assumes "initiateConnection depth fsE fsV sys params tunName tunLocal tunRemote tk = Some tk'" and "gating tk"
  shows "gating tk'"
proof (cases "socket_ret sys = - 1 \<or> bind_ret sys = - 1 \<or> send_ret sys = - 1")
  case True
  show ?thesis
  proof (cases "sockFd (fst tk) \<noteq> - 1")
    case True
    then have "shutdownConnection depth fsE tk = Some tk'"
      using assms(1) initiateConnection_failed [OF \<open>socket_ret sys = - 1 \<or> bind_ret sys = - 1 \<or> send_ret sys = - 1\<close>]
      by simp
    then show ?thesis using shutdownConnection_tracker by (simp add: gating_def)
  next
    case False
    then have "tk' = tk"
      using assms(1) initiateConnection_failed [OF \<open>socket_ret sys = - 1 \<or> bind_ret sys = - 1 \<or> send_ret sys = - 1\<close>]
      by simp
    then show ?thesis using assms(2) by simp
  qed
next
  case False
  with assms(1) obtain t0 k0 tk1 where
    u: "updateSplitTunnel depth fsE fsV params tunName tunLocal tunRemote (excludeApps params) (vpnOnlyApps params)
       (t0\<lparr>sockFd := socket_ret sys\<rparr>,
        setupFirewall (k0\<lparr>open_socks := socket_ret sys # open_socks k0\<rparr>)) = Some tk1"
    and r: "tk' = ((fst (setupReversePathFiltering sys tk1))\<lparr>readNotifier := Some (socket_ret sys)\<rparr>,
            snd (setupReversePathFiltering sys tk1))"
    by (auto elim: initiateConnection_started)
  obtain v where "fst (setupReversePathFiltering sys tk1) = (fst tk1)\<lparr>previousRPFilter := v\<rparr>"
    using setupReversePathFiltering_tracker by blast
  then show ?thesis using updateSplitTunnel_gating [OF u] r by (simp add: gating_def)
qed

lemma addLaunchedApp_exclusions_gated:
  assumes "addLaunchedApp depth fs pid tk = Some tk'" and "\<not> isValid (previousNetScan (fst tk))"
  shows "exclusionsMap (fst tk') = exclusionsMap (fst tk)"
  using assms unfolding addLaunchedApp_def Let_def
  by (auto split: if_splits Option.bind_splits)

lemma addLaunchedApp_scan:
  assumes "addLaunchedApp depth fs pid tk = Some tk'"
  shows "previousNetScan (fst tk') = previousNetScan (fst tk)"
  using assms unfolding addLaunchedApp_def Let_def
  by (auto split: if_splits Option.bind_splits)

lemma addLaunchedApp_gating:
  assumes "addLaunchedApp depth fs pid tk = Some tk'" and "gating tk"
  shows "gating tk'"
  using assms addLaunchedApp_exclusions_gated [OF assms(1)] addLaunchedApp_scan [OF assms(1)]
  by (auto simp add: gating_def)

lemma public_op_gating:
  assumes "public_op fsE fsV tk tk'" and "gating tk"
  shows "gating tk'"
  using assms
proof (cases rule: public_op.cases)
  case (initiate depth sys params tunName tunLocal tunRemote)
  then show ?thesis using assms(2) by (rule initiateConnection_gating)
next
  case (update depth params tunName tunLocal tunRemote ex vo)
  then show ?thesis by (rule updateSplitTunnel_gating)
next
  case (shutdown depth)
  then show ?thesis using shutdownConnection_tracker by (simp add: gating_def)
next
  case (launched depth pid)
  from launched(1) assms(2) show ?thesis by (rule addLaunchedApp_gating)
next
  case (terminated pid)
  then show ?thesis using assms(2) by (simp add: gating_def removeTerminatedApp_def)
qed

lemma reachable_gating: "reachable tk \<Longrightarrow> gating tk"
proof (induction rule: reachable.induct)
  case (boot k)
  then show ?case by (simp add: gating_def initial_tracker_def)
next
  case (op tk fs tk')
  then show ?case using public_op_gating by blast
next
  case (outside t k c v)
  then show ?case by (simp add: gating_def)
qed

section \<open>Source-IP rules\<close>

lemma table_rules_remove:
  "table_rules tbl' (removeRoutingPolicyForSourceIp ip tbl k) =
     (if ip \<noteq> [] then remove1 (ip, tbl) (table_rules tbl' k) else table_rules tbl' k)"
  by (simp add: table_rules_def removeRoutingPolicyForSourceIp_def shellExecute_def filter_remove1)

lemma table_rules_add:
  "table_rules tbl' (addRoutingPolicyForSourceIp ip tbl k) =
     (if ip \<noteq> [] \<and> tbl' = tbl then (ip, tbl) # table_rules tbl' k else table_rules tbl' k)"
  by (simp add: table_rules_def addRoutingPolicyForSourceIp_def shellExecute_def)

lemma log_ok_remove: "log_ok k \<Longrightarrow> log_ok (removeRoutingPolicyForSourceIp ip tbl k)"
  by (simp add: log_ok_def removeRoutingPolicyForSourceIp_def shellExecute_def)

lemma log_ok_add:
  "log_ok k \<Longrightarrow> table_rules tbl k = [] \<Longrightarrow> log_ok (addRoutingPolicyForSourceIp ip tbl k)"
  by (simp add: log_ok_def addRoutingPolicyForSourceIp_def shellExecute_def table_rules_def)

lemma shellExecute_other_rules:
  assumes "\<And>ip tbl. cmd \<noteq> IpRuleAdd ip tbl" and "\<And>ip tbl. cmd \<noteq> IpRuleDel ip tbl"
  shows "table_rules tbl (shellExecute cmd k) = table_rules tbl k"
    and "log_ok (shellExecute cmd k) = log_ok k"
  using assms
  by (cases cmd; cases "replay_rules (shell_log k)";
      simp add: table_rules_def log_ok_def shellExecute_def)+

lemma updateRoutes_rules:
  "table_rules tbl (updateRoutes gw iface tn tr k) = table_rules tbl k"
  "log_ok (updateRoutes gw iface tn tr k) = log_ok k"
  by (simp_all add: updateRoutes_def Let_def shellExecute_other_rules)

lemma updateMasquerade_rules:
  "table_rules tbl (updateMasquerade iface k) = table_rules tbl k"
  "log_ok (updateMasquerade iface k) = log_ok k"
  by (simp_all add: table_rules_def log_ok_def updateMasquerade_def replaceAnchor_def)

lemma same_but_cgroups_rules:
  assumes "same_but_cgroups k k'"
  shows "table_rules tbl k' = table_rules tbl k" "log_ok k' = log_ok k"
  using same_but_cgroups_fields [OF assms] by (simp_all add: table_rules_def log_ok_def)

lemma rules_follow_alt:
  "rules_follow ip tunnelLocal k =
     (log_ok k \<and>
      (table_rules kRtableName k = [] \<or>
       ip \<noteq> [] \<and> table_rules kRtableName k = [(ip, kRtableName)]) \<and>
      (table_rules kVpnOnlyRtableName k = [] \<or>
       tunnelLocal \<noteq> [] \<and> table_rules kVpnOnlyRtableName k = [(tunnelLocal, kVpnOnlyRtableName)]))"
  by (simp add: rules_follow_def log_ok_def)

lemma rules_follow_same_but_cgroups:
  "same_but_cgroups k k' \<Longrightarrow> rules_follow ip tun k \<Longrightarrow> rules_follow ip tun k'"
  by (simp add: rules_follow_alt same_but_cgroups_rules)

lemma table_rules_remove_other:
  "tbl' \<noteq> tbl \<Longrightarrow> table_rules tbl' (removeRoutingPolicyForSourceIp ip tbl k) = table_rules tbl' k"
proof -
  assume "tbl' \<noteq> tbl"
  then have "(ip, tbl) \<notin> set (table_rules tbl' k)" by (auto simp add: table_rules_def)
  then show ?thesis by (simp add: table_rules_remove remove1_idem)
qed

lemma switch_rule:
  assumes "log_ok k"
    and "table_rules tbl k = [] \<or> old \<noteq> [] \<and> table_rules tbl k = [(old, tbl)]"
  shows "log_ok (addRoutingPolicyForSourceIp new tbl (removeRoutingPolicyForSourceIp old tbl k))"
    and "table_rules tbl (addRoutingPolicyForSourceIp new tbl (removeRoutingPolicyForSourceIp old tbl k)) =
           (if new \<noteq> [] then [(new, tbl)] else [])"
    and "tbl' \<noteq> tbl \<Longrightarrow>
         table_rules tbl' (addRoutingPolicyForSourceIp new tbl (removeRoutingPolicyForSourceIp old tbl k)) =
           table_rules tbl' k"
proof -
  have gone: "table_rules tbl (removeRoutingPolicyForSourceIp old tbl k) = []"
    using assms(2) by (auto simp add: table_rules_remove)
  show "log_ok (addRoutingPolicyForSourceIp new tbl (removeRoutingPolicyForSourceIp old tbl k))"
    using assms(1) gone by (intro log_ok_add log_ok_remove)
  show "table_rules tbl (addRoutingPolicyForSourceIp new tbl (removeRoutingPolicyForSourceIp old tbl k)) =
           (if new \<noteq> [] then [(new, tbl)] else [])"
    using gone by (simp add: table_rules_add)
  show "table_rules tbl' (addRoutingPolicyForSourceIp new tbl (removeRoutingPolicyForSourceIp old tbl k)) =
           table_rules tbl' k" if "tbl' \<noteq> tbl"
    using that by (simp add: table_rules_add table_rules_remove_other)
qed

lemma updateNetwork_rules:
  assumes "rules_inv tk"
  shows "rules_inv (updateNetwork params tn tr tu tk)"
proof -
  let ?t = "fst tk" and ?k = "snd tk"
  let ?ip = "ipAddress (previousNetScan ?t)" and ?ip' = "ipAddress (splitTunnelNetScan params)"
  let ?tun = "previousTunnelDeviceLocalAddress ?t"
  let ?k0 = "if interfaceName (previousNetScan ?t) \<noteq> interfaceName (splitTunnelNetScan params)
             then updateMasquerade (interfaceName (splitTunnelNetScan params)) ?k else ?k"
  let ?kb = "if ?ip \<noteq> ?ip'
             then addRoutingPolicyForSourceIp ?ip' kRtableName
                    (removeRoutingPolicyForSourceIp ?ip kRtableName ?k0)
             else ?k0"
  let ?kv = "if ?tun \<noteq> tr
             then addRoutingPolicyForSourceIp tr kVpnOnlyRtableName
                    (removeRoutingPolicyForSourceIp ?tun kVpnOnlyRtableName ?kb)
             else ?kb"
  have i0: "rules_follow ?ip ?tun ?k0"
    using assms by (simp add: rules_inv_def rules_follow_alt updateMasquerade_rules)
  have ib: "rules_follow ?ip' ?tun ?kb"
  proof (cases "?ip \<noteq> ?ip'")
    case True
    have l: "log_ok ?k0"
      and r: "table_rules kRtableName ?k0 = [] \<or>
              ?ip \<noteq> [] \<and> table_rules kRtableName ?k0 = [(?ip, kRtableName)]"
      using i0 by (simp_all add: rules_follow_alt)
    show ?thesis
      using True i0 switch_rule(1) [OF l r, of ?ip'] switch_rule(2) [OF l r, of ?ip']
        switch_rule(3) [OF l r, of kVpnOnlyRtableName ?ip']
      by (simp add: rules_follow_alt)
  next
    case False
    then show ?thesis using i0 by simp
  qed
  have iv: "rules_follow ?ip' tr ?kv"
  proof (cases "?tun \<noteq> tr")
    case True
    have l: "log_ok ?kb"
      and r: "table_rules kVpnOnlyRtableName ?kb = [] \<or>
              ?tun \<noteq> [] \<and> table_rules kVpnOnlyRtableName ?kb = [(?tun, kVpnOnlyRtableName)]"
      using ib by (simp_all add: rules_follow_alt)
    show ?thesis
      using True ib switch_rule(1) [OF l r, of tr] switch_rule(2) [OF l r, of tr]
        switch_rule(3) [OF l r, of kRtableName tr]
      by (simp add: rules_follow_alt)
  next
    case False
    then show ?thesis using ib by simp
  qed
  have "rules_follow ?ip' tr
          (updateRoutes (gatewayIp (splitTunnelNetScan params))
             (interfaceName (splitTunnelNetScan params)) tn tu ?kv)"
    using iv by (simp add: rules_follow_alt updateRoutes_rules)
  then show ?thesis by (simp add: rules_inv_def updateNetwork_def Let_def)
qed

lemma rules_follow_same_rules:
  assumes "ip_rules k' = ip_rules k" and "shell_log k' = shell_log k"
  shows "rules_follow ip tun k' = rules_follow ip tun k"
  using assms by (simp add: rules_follow_def table_rules_def)

lemma updateApps_rules:
  assumes "updateApps depth fsE fsV ex vo tk = Some tk'" and "rules_inv tk"
  shows "rules_inv tk'"
proof -
  obtain t k t' k' where p: "tk = (t, k)" "tk' = (t', k')" by (cases tk, cases tk')
  have f: "same_but_cgroups k k'"
    and t: "t' = t\<lparr>exclusionsMap := exclusionsMap t', vpnOnlyMap := vpnOnlyMap t'\<rparr>"
    using updateApps_frame [of depth fsE fsV ex vo t k t' k'] assms(1) p by simp_all
  have "previousNetScan t' = previousNetScan t"
    and "previousTunnelDeviceLocalAddress t' = previousTunnelDeviceLocalAddress t"
    by (subst t, simp)+
  then show ?thesis
    using assms(2) p rules_follow_same_but_cgroups [OF f] by (simp add: rules_inv_def)
qed

lemma updateSplitTunnel_rules:
  assumes "updateSplitTunnel depth fsE fsV params tn tr tu ex vo tk = Some tk'" and "rules_inv tk"
  shows "rules_inv tk'"
  using assms updateApps_rules updateNetwork_rules unfolding updateSplitTunnel_def by blast

lemma teardownReversePathFiltering_rules:
  "rules_follow ip tun (teardownReversePathFiltering t k) = rules_follow ip tun k"
  by (simp add: teardownReversePathFiltering_def rules_follow_alt shellExecute_other_rules)

lemma shutdownConnection_rules:
  assumes "shutdownConnection depth fs tk = Some tk'" and "rules_inv tk"
  shows "rules_inv tk'"
proof -
  obtain t k t' k' where p: "tk = (t, k)" "tk' = (t', k')" by (cases tk, cases tk')
  let ?ip = "ipAddress (previousNetScan t)" and ?tun = "previousTunnelDeviceLocalAddress t"
  from assms(1) p obtain k1 where
    f: "same_but_cgroups
       (teardownFirewall (if sockFd t \<noteq> - 1 then close_fd (sockFd t) k else k)) k1"
    and k': "k' = teardownReversePathFiltering t
            (removeRoutingPolicyForSourceIp ?tun kVpnOnlyRtableName
               (removeRoutingPolicyForSourceIp ?ip kRtableName k1))"
    and t': "t' = t\<lparr>sockFd := - 1, readNotifier := None, previousNetScan := empty_scan,
             exclusionsMap := [], vpnOnlyMap := []\<rparr>"
    by (auto elim: shutdownConnection_result)
  have "rules_follow ?ip ?tun (teardownFirewall (if sockFd t \<noteq> - 1 then close_fd (sockFd t) k else k))"
    using assms(2) p
    by (simp add: rules_inv_def rules_follow_def table_rules_def teardownFirewall_def
        setAnchorEnabled_def close_fd_def)
  then have i1: "rules_follow ?ip ?tun k1" using f by (rule rules_follow_same_but_cgroups [rotated])
  let ?ka = "removeRoutingPolicyForSourceIp ?ip kRtableName k1"
  let ?kb = "removeRoutingPolicyForSourceIp ?tun kVpnOnlyRtableName ?ka"
  have a: "log_ok ?ka" "table_rules kRtableName ?ka = []"
    "table_rules kVpnOnlyRtableName ?ka = table_rules kVpnOnlyRtableName k1"
    using i1 by (auto simp add: rules_follow_alt log_ok_remove table_rules_remove table_rules_remove_other)
  have b: "log_ok ?kb" "table_rules kRtableName ?kb = []" "table_rules kVpnOnlyRtableName ?kb = []"
    using a i1 by (auto simp add: rules_follow_alt log_ok_remove table_rules_remove table_rules_remove_other)
  have "rules_follow [] ?tun ?kb" using b by (simp add: rules_follow_alt)
  then show ?thesis
    using p k' t' by (simp add: rules_inv_def teardownReversePathFiltering_rules empty_scan_def)
qed

lemma setupReversePathFiltering_rules:
  assumes "rules_inv tk"
  shows "rules_inv (setupReversePathFiltering sys tk)"
  using assms
  by (simp add: rules_inv_def setupReversePathFiltering_def Let_def rules_follow_alt
      shellExecute_other_rules)

lemma initiateConnection_rules:
  assumes "initiateConnection depth fsE fsV sys params tn tr tu tk = Some tk'" and "rules_inv tk"
  shows "rules_inv tk'"
proof -
  have first: "rules_inv tk0"
    if "(if sockFd (fst tk) \<noteq> - 1 then shutdownConnection depth fsE tk else Some tk) = Some tk0"
    for tk0
    using that assms(2) shutdownConnection_rules by (auto split: if_splits)
  show ?thesis
  proof (cases "socket_ret sys = - 1 \<or> bind_ret sys = - 1 \<or> send_ret sys = - 1")
    case True
    then show ?thesis using assms(1) first by (simp add: initiateConnection_failed)
  next
    case False
    with assms(1) obtain t0 k0 tk1 where
      s: "(if sockFd (fst tk) \<noteq> - 1 then shutdownConnection depth fsE tk else Some tk) = Some (t0, k0)"
      and u: "updateSplitTunnel depth fsE fsV params tn tr tu (excludeApps params) (vpnOnlyApps params)
         (t0\<lparr>sockFd := socket_ret sys\<rparr>,
          setupFirewall (k0\<lparr>open_socks := socket_ret sys # open_socks k0\<rparr>)) = Some tk1"
      and r: "tk' = ((fst (setupReversePathFiltering sys tk1))\<lparr>readNotifier := Some (socket_ret sys)\<rparr>,
              snd (setupReversePathFiltering sys tk1))"
      by (auto elim: initiateConnection_started)
    have "rules_inv (t0, k0)" using first [OF s] .
    then have "rules_inv (t0\<lparr>sockFd := socket_ret sys\<rparr>,
          setupFirewall (k0\<lparr>open_socks := socket_ret sys # open_socks k0\<rparr>))"
      by (simp add: rules_inv_def rules_follow_def table_rules_def setupFirewall_def
          setAnchorEnabled_def)
    then have "rules_inv tk1" using u by (rule updateSplitTunnel_rules [rotated])
    then have "rules_inv (setupReversePathFiltering sys tk1)"
      by (rule setupReversePathFiltering_rules)
    then show ?thesis using r by (simp add: rules_inv_def)
  qed
qed

lemma addPidToCgroup_same:
  "addPidToCgroup depth fs pid cg k = Some k' \<Longrightarrow> same_but_cgroups k k'"
  using addPidToCgroup_writes writes_only_to_same by blast

lemma addLaunchedApp_cases:
  assumes "addLaunchedApp depth fs pid tk = Some tk'"
  obtains (ignored) "tk' = tk"
  | (excluded) k' where "pathForPid fs pid \<noteq> []"
      "app_contains (exclusionsMap (fst tk)) (pathForPid fs pid)"
      "isValid (previousNetScan (fst tk))"
      "addPidToCgroup depth fs pid VpnExclusionsFile (snd tk) = Some k'"
      "tk' = ((fst tk)\<lparr>exclusionsMap :=
                 app_insert_pid (pathForPid fs pid) pid (exclusionsMap (fst tk))\<rparr>, k')"
  | (vpn_only) k' where "pathForPid fs pid \<noteq> []"
      "\<not> app_contains (exclusionsMap (fst tk)) (pathForPid fs pid)"
      "app_contains (vpnOnlyMap (fst tk)) (pathForPid fs pid)"
      "addPidToCgroup depth fs pid VpnOnlyFile (snd tk) = Some k'"
      "tk' = ((fst tk)\<lparr>vpnOnlyMap :=
                 app_insert_pid (pathForPid fs pid) pid (vpnOnlyMap (fst tk))\<rparr>, k')"
  using assms unfolding addLaunchedApp_def Let_def
  by (auto split: if_splits Option.bind_splits)

lemma addLaunchedApp_frame:
  assumes "addLaunchedApp depth fs pid tk = Some tk'"
  shows "same_but_cgroups (snd tk) (snd tk')"
    and "\<exists>em vm. fst tk' = (fst tk)\<lparr>exclusionsMap := em, vpnOnlyMap := vm\<rparr>"
proof -
  have r: "fst tk = (fst tk)\<lparr>exclusionsMap := exclusionsMap (fst tk), vpnOnlyMap := vpnOnlyMap (fst tk)\<rparr>"
    by simp
  from assms show "same_but_cgroups (snd tk) (snd tk')"
    by (cases rule: addLaunchedApp_cases) (auto intro: same_but_cgroups_refl addPidToCgroup_same)
  from assms show "\<exists>em vm. fst tk' = (fst tk)\<lparr>exclusionsMap := em, vpnOnlyMap := vm\<rparr>"
  proof (cases rule: addLaunchedApp_cases)
    case ignored
    then show ?thesis using r by blast
  next
    case (excluded k')
    then show ?thesis
      by (intro exI [of _ "app_insert_pid (pathForPid fs pid) pid (exclusionsMap (fst tk))"]
          exI [of _ "vpnOnlyMap (fst tk)"]) simp
  next
    case (vpn_only k')
    then show ?thesis
      by (intro exI [of _ "exclusionsMap (fst tk)"]
          exI [of _ "app_insert_pid (pathForPid fs pid) pid (vpnOnlyMap (fst tk))"]) simp
  qed
qed

lemma addLaunchedApp_rules:
  assumes "addLaunchedApp depth fs pid tk = Some tk'" and "rules_inv tk"
  shows "rules_inv tk'"
proof -
  obtain em vm where t: "fst tk' = (fst tk)\<lparr>exclusionsMap := em, vpnOnlyMap := vm\<rparr>"
    using addLaunchedApp_frame(2) [OF assms(1)] by blast
  show ?thesis
    using assms(2) rules_follow_same_but_cgroups [OF addLaunchedApp_frame(1) [OF assms(1)]]
    by (simp add: rules_inv_def t)
qed

lemma public_op_rules:
  assumes "public_op fsE fsV tk tk'" and "rules_inv tk"
  shows "rules_inv tk'"
  using assms
proof (cases rule: public_op.cases)
  case (initiate depth sys params tn tr tu)
  then show ?thesis using assms(2) by (rule initiateConnection_rules)
next
  case (update depth params tn tr tu ex vo)
  then show ?thesis using assms(2) by (rule updateSplitTunnel_rules)
next
  case (shutdown depth)
  then show ?thesis using assms(2) by (rule shutdownConnection_rules)
next
  case (launched depth pid)
  from launched(1) assms(2) show ?thesis by (rule addLaunchedApp_rules)
next
  case (terminated pid)
  then show ?thesis using assms(2) by (simp add: rules_inv_def removeTerminatedApp_def)
qed

lemma reachable_rules: "reachable tk \<Longrightarrow> rules_inv tk"
proof (induction rule: reachable.induct)
  case (boot k)
  then show ?case by (simp add: rules_inv_def rules_follow_def table_rules_def)
next
  case (op tk fs tk')
  then show ?case using public_op_rules by blast
next
  case (outside t k c v)
  then show ?case by (simp add: rules_inv_def rules_follow_def table_rules_def)
qed

lemma session_roaming:
  "\<exists>tk1 tk2.
     initiateConnection (Suc (Suc 0)) family_proc family_proc ok_calls exclude_foo ''tun0'' ''10.0.0.2''
       ''10.0.0.1'' (initial_tracker, boot_kernel) = Some tk1 \<and>
     updateSplitTunnel (Suc (Suc 0)) family_proc family_proc roaming_foo ''tun0'' ''10.0.0.2'' ''10.0.0.1''
       (excludeApps roaming_foo) (vpnOnlyApps roaming_foo) tk1 = Some tk2 \<and>
     ip_rules (snd tk2) = [(''10.1.1.5'', kRtableName), (''10.0.0.2'', kVpnOnlyRtableName)] \<and>
     rev (filter (\<lambda>c. \<exists>ip tbl. c = IpRuleAdd ip tbl \<or> c = IpRuleDel ip tbl) (shell_log (snd tk2))) =
       [IpRuleAdd ''192.168.1.2'' kRtableName, IpRuleAdd ''10.0.0.2'' kVpnOnlyRtableName,
        IpRuleDel ''192.168.1.2'' kRtableName, IpRuleAdd ''10.1.1.5'' kRtableName]"
  by (simp add: run_defs roaming_foo_def)

section \<open>Which pids enter the maps\<close>

lemma set_app_pids:
  "set (app_pids m a) = (case tracked_pids m a of None \<Rightarrow> {} | Some S \<Rightarrow> S)"
  by (simp add: app_pids_def tracked_pids_def split: option.splits)

lemma set_pidsForPath:
  "set (pidsForPath fs a) = {p \<in> set (proc_entries fs). pathForPid fs p = a}"
  by (auto simp add: pidsForPath_def filterPids_def)

lemma app_pids_insert_pid:
  "app_pids (app_insert_pid a pid m) b =
     (if b = a then List.insert pid (app_pids m a) else app_pids m b)"
  by (simp add: app_pids_def app_insert_pid_def AList.update_conv')

lemma app_pids_removeAll:
  "app_pids (map (\<lambda>(app, pids). (app, removeAll pid pids)) m) a = removeAll pid (app_pids m a)"
  by (induction m) (auto simp add: app_pids_def)

lemma app_pids_Nil: "app_pids [] a = []"
  by (simp add: app_pids_def)

lemma updateApps_scoped:
  assumes "updateApps depth fsE fsV excludedApps vpnOnlyApps' (t, k) = Some (t', k')"
  shows "p \<in> set (app_pids (exclusionsMap t') a) \<Longrightarrow> pathForPid fsE p = a \<and> a \<in> set excludedApps"
    and "p \<in> set (app_pids (vpnOnlyMap t') a) \<Longrightarrow> pathForPid fsV p = a \<and> a \<in> set vpnOnlyApps'"
  using updateApps_maps(1,2) [OF assms, of a]
  by (auto simp add: set_app_pids set_pidsForPath split: if_splits)

lemma updateSplitTunnel_scoped:
  assumes "updateSplitTunnel depth fsE fsV params tn tr tu excludedApps vpnOnlyApps' tk = Some tk'"
  shows "p \<in> set (app_pids (exclusionsMap (fst tk')) a) \<Longrightarrow> pathForPid fsE p = a \<and> a \<in> set excludedApps"
    and "p \<in> set (app_pids (vpnOnlyMap (fst tk')) a) \<Longrightarrow> pathForPid fsV p = a \<and> a \<in> set vpnOnlyApps'"
proof -
  obtain t1 k1 where u: "updateNetwork params tn tr tu tk = (t1, k1)"
    by (cases "updateNetwork params tn tr tu tk")
  have a: "updateApps depth fsE fsV excludedApps vpnOnlyApps' (t1, k1) = Some (fst tk', snd tk')"
    using assms u by (simp add: updateSplitTunnel_def)
  show "p \<in> set (app_pids (exclusionsMap (fst tk')) a) \<Longrightarrow> pathForPid fsE p = a \<and> a \<in> set excludedApps"
    by (rule updateApps_scoped(1) [OF a])
  show "p \<in> set (app_pids (vpnOnlyMap (fst tk')) a) \<Longrightarrow> pathForPid fsV p = a \<and> a \<in> set vpnOnlyApps'"
    by (rule updateApps_scoped(2) [OF a])
qed

lemma initiateConnection_maps:
  assumes "initiateConnection depth fsE fsV sys params tn tr tu tk = Some tk'"
  obtains (unchanged) "exclusionsMap (fst tk') = exclusionsMap (fst tk)"
      "vpnOnlyMap (fst tk') = vpnOnlyMap (fst tk)"
  | (emptied) "exclusionsMap (fst tk') = []" "vpnOnlyMap (fst tk') = []"
  | (updated) tk0 tk1 where
      "updateSplitTunnel depth fsE fsV params tn tr tu (excludeApps params) (vpnOnlyApps params) tk0 = Some tk1"
      "exclusionsMap (fst tk') = exclusionsMap (fst tk1)" "vpnOnlyMap (fst tk') = vpnOnlyMap (fst tk1)"
proof (cases "socket_ret sys = - 1 \<or> bind_ret sys = - 1 \<or> send_ret sys = - 1")
  case True
  show ?thesis
  proof (cases "sockFd (fst tk) \<noteq> - 1")
    case True
    then have "shutdownConnection depth fsE tk = Some tk'"
      using assms initiateConnection_failed [OF \<open>socket_ret sys = - 1 \<or> bind_ret sys = - 1 \<or> send_ret sys = - 1\<close>]
      by simp
    then show ?thesis using shutdownConnection_tracker emptied by simp
  next
    case False
    then have "tk' = tk"
      using assms initiateConnection_failed [OF \<open>socket_ret sys = - 1 \<or> bind_ret sys = - 1 \<or> send_ret sys = - 1\<close>]
      by simp
    then show ?thesis using unchanged by simp
  qed
next
  case False
  with assms obtain t0 k0 tk1 where
    u: "updateSplitTunnel depth fsE fsV params tn tr tu (excludeApps params) (vpnOnlyApps params)
       (t0\<lparr>sockFd := socket_ret sys\<rparr>,
        setupFirewall (k0\<lparr>open_socks := socket_ret sys # open_socks k0\<rparr>)) = Some tk1"
    and r: "tk' = ((fst (setupReversePathFiltering sys tk1))\<lparr>readNotifier := Some (socket_ret sys)\<rparr>,
            snd (setupReversePathFiltering sys tk1))"
    by (auto elim: initiateConnection_started)
  obtain v where "fst (setupReversePathFiltering sys tk1) = (fst tk1)\<lparr>previousRPFilter := v\<rparr>"
    using setupReversePathFiltering_tracker by blast
  then show ?thesis using updated [OF u] r by simp
qed

lemma enters_by_path_scoped:
  assumes "\<And>a p. p \<in> set (app_pids m' a) \<Longrightarrow> pathForPid fs p = a"
  shows "enters_by_path fs m m'"
  using assms by (simp add: enters_by_path_def)

lemma enters_by_path_same: "enters_by_path fs m m"
  by (simp add: enters_by_path_def)

lemma public_op_enters:
  assumes "public_op fsE fsV tk tk'"
  shows "enters_by_path fsE (exclusionsMap (fst tk)) (exclusionsMap (fst tk')) \<and>
         enters_by_path fsV (vpnOnlyMap (fst tk)) (vpnOnlyMap (fst tk'))"
  using assms
proof (cases rule: public_op.cases)
  case (initiate depth sys params tn tr tu)
  then show ?thesis
  proof (cases rule: initiateConnection_maps)
    case unchanged
    then show ?thesis by (simp add: enters_by_path_same)
  next
    case emptied
    then show ?thesis by (simp add: enters_by_path_def app_pids_Nil)
  next
    case (updated tk0 tk1)
    then show ?thesis
      using updateSplitTunnel_scoped [OF updated(1)]
      by (auto intro!: enters_by_path_scoped)
  qed
next
  case (update depth params tn tr tu ex vo)
  then show ?thesis
    using updateSplitTunnel_scoped [OF update] by (auto intro!: enters_by_path_scoped)
next
  case (shutdown depth)
  then show ?thesis
    using shutdownConnection_tracker [OF shutdown] by (simp add: enters_by_path_def app_pids_Nil)
next
  case (launched depth pid)
  from launched(1) show ?thesis unfolding launched(2)
    by (cases rule: addLaunchedApp_cases)
       (auto simp add: enters_by_path_def app_pids_insert_pid split: if_splits)
next
  case (terminated pid)
  then show ?thesis
    by (simp add: enters_by_path_def removeTerminatedApp_def app_pids_removeAll)
qed

lemma addApps_enters:
  assumes "addApps depth fs apps cg (m, k) = Some (m', k')"
  shows "enters_by_path fs m m'"
  using addApps_map [OF assms]
  by (auto simp add: enters_by_path_def set_app_pids tracked_pids_fold_scan_app set_pidsForPath
      split: if_splits)

lemma addLaunchedApp_only_pid:
  assumes "addLaunchedApp depth fs pid tk = Some tk'"
  shows "p \<in> set (app_pids (exclusionsMap (fst tk')) a) \<Longrightarrow>
           p \<in> set (app_pids (exclusionsMap (fst tk)) a) \<or> p = pid \<and> pathForPid fs pid = a"
    and "p \<in> set (app_pids (vpnOnlyMap (fst tk')) a) \<Longrightarrow>
           p \<in> set (app_pids (vpnOnlyMap (fst tk)) a) \<or> p = pid \<and> pathForPid fs pid = a"
proof -
  show "p \<in> set (app_pids (exclusionsMap (fst tk')) a) \<Longrightarrow>
           p \<in> set (app_pids (exclusionsMap (fst tk)) a) \<or> p = pid \<and> pathForPid fs pid = a"
    using assms
    by (cases rule: addLaunchedApp_cases) (auto simp add: app_pids_insert_pid split: if_splits)
  show "p \<in> set (app_pids (vpnOnlyMap (fst tk')) a) \<Longrightarrow>
           p \<in> set (app_pids (vpnOnlyMap (fst tk)) a) \<or> p = pid \<and> pathForPid fs pid = a"
    using assms
    by (cases rule: addLaunchedApp_cases) (auto simp add: app_pids_insert_pid split: if_splits)
qed

lemma addLaunchedApp_excluded:
  assumes "addLaunchedApp depth fs pid tk = Some tk'" and "pathForPid fs pid \<noteq> []"
    and "app_contains (exclusionsMap (fst tk)) (pathForPid fs pid)"
    and "isValid (previousNetScan (fst tk))"
  shows "pid \<in> set (app_pids (exclusionsMap (fst tk')) (pathForPid fs pid))"
    and "descendant fs pid q \<Longrightarrow> cgroup_of (snd tk') q = VpnExclusionsFile"
proof -
  from assms obtain k' where
    w: "addPidToCgroup depth fs pid VpnExclusionsFile (snd tk) = Some k'"
    and t: "tk' = ((fst tk)\<lparr>exclusionsMap :=
                     app_insert_pid (pathForPid fs pid) pid (exclusionsMap (fst tk))\<rparr>, k')"
    unfolding addLaunchedApp_def Let_def by (auto split: Option.bind_splits)
  show "pid \<in> set (app_pids (exclusionsMap (fst tk')) (pathForPid fs pid))"
    by (simp add: t app_pids_insert_pid)
  show "cgroup_of (snd tk') q = VpnExclusionsFile" if "descendant fs pid q"
    using addPidToCgroup_descendants [OF w that] t by simp
qed

lemma addLaunchedApp_vpn_only:
  assumes "addLaunchedApp depth fs pid tk = Some tk'" and "pathForPid fs pid \<noteq> []"
    and "\<not> app_contains (exclusionsMap (fst tk)) (pathForPid fs pid)"
    and "app_contains (vpnOnlyMap (fst tk)) (pathForPid fs pid)"
  shows "pid \<in> set (app_pids (vpnOnlyMap (fst tk')) (pathForPid fs pid))"
    and "descendant fs pid q \<Longrightarrow> cgroup_of (snd tk') q = VpnOnlyFile"
proof -
  from assms obtain k' where
    w: "addPidToCgroup depth fs pid VpnOnlyFile (snd tk) = Some k'"
    and t: "tk' = ((fst tk)\<lparr>vpnOnlyMap :=
                     app_insert_pid (pathForPid fs pid) pid (vpnOnlyMap (fst tk))\<rparr>, k')"
    unfolding addLaunchedApp_def Let_def by (auto split: Option.bind_splits)
  show "pid \<in> set (app_pids (vpnOnlyMap (fst tk')) (pathForPid fs pid))"
    by (simp add: t app_pids_insert_pid)
  show "cgroup_of (snd tk') q = VpnOnlyFile" if "descendant fs pid q"
    using addPidToCgroup_descendants [OF w that] t by simp
qed

lemma lineage_run:
  "\<exists>appMap' k' k'' s1 s2.
     addPidToCgroup (Suc (Suc (Suc 0))) lineage_proc 8 VpnOnlyFile boot_kernel = Some k'' \<and>
     cgroup_of k'' 5 = ParentVpnExclusionsFile \<and>
     addApps (Suc (Suc (Suc 0))) lineage_proc [''/usr/bin/foo''] VpnExclusionsFile
       ([], boot_kernel) = Some (appMap', k') \<and>
     initiateConnection (Suc (Suc 0)) family_proc family_proc ok_calls exclude_foo ''tun0'' ''10.0.0.2''
       ''10.0.0.1'' (initial_tracker, boot_kernel) = Some s1 \<and>
     exclusionsMap (fst s1) = [(''/usr/bin/foo'', [5])] \<and>
     vpnOnlyMap (fst s1) = [] \<and>
     previousNetScan (fst s1) = home_scan \<and>
     map (cgroup_of (snd s1)) [8, 9, 10] =
       [ParentVpnExclusionsFile, ParentVpnExclusionsFile, ParentVpnExclusionsFile] \<and>
     addLaunchedApp (Suc (Suc (Suc 0))) lineage_proc 8 s1 = Some s2"
  by (simp add: run_defs lineage_proc_def)

section \<open>Pids in both maps\<close>

lemma updateApps_disjoint:
  assumes "updateApps depth fsE fsV excludedApps vpnOnlyApps' (t, k) = Some (t', k')"
  shows "pids_disjoint t' \<longleftrightarrow>
           (isValid (previousNetScan t) \<longrightarrow> scans_disjoint fsE fsV excludedApps vpnOnlyApps')"
proof -
  have e: "set (app_pids (exclusionsMap t') a) =
             (if isValid (previousNetScan t) \<and> a \<in> set excludedApps
              then set (pidsForPath fsE a) else {})" for a
    using updateApps_maps(1) [OF assms, of a] by (simp add: set_app_pids)
  have v: "set (app_pids (vpnOnlyMap t') b) =
             (if b \<in> set vpnOnlyApps' then set (pidsForPath fsV b) else {})" for b
    using updateApps_maps(2) [OF assms, of b] by (simp add: set_app_pids)
  show ?thesis
  proof
    assume d: "pids_disjoint t'"
    show "isValid (previousNetScan t) \<longrightarrow> scans_disjoint fsE fsV excludedApps vpnOnlyApps'"
      unfolding scans_disjoint_def
    proof (intro impI ballI)
      fix a b
      assume "isValid (previousNetScan t)" "a \<in> set excludedApps" "b \<in> set vpnOnlyApps'"
      then show "set (pidsForPath fsE a) \<inter> set (pidsForPath fsV b) = {}"
        using d [unfolded pids_disjoint_def, rule_format, of a b] by (simp add: e v)
    qed
  next
    assume s: "isValid (previousNetScan t) \<longrightarrow> scans_disjoint fsE fsV excludedApps vpnOnlyApps'"
    show "pids_disjoint t'"
      unfolding pids_disjoint_def
    proof (intro allI)
      fix a b
      show "set (app_pids (exclusionsMap t') a) \<inter> set (app_pids (vpnOnlyMap t') b) = {}"
        using s by (simp add: e v scans_disjoint_def)
    qed
  qed
qed

lemma updateSplitTunnel_disjoint:
  assumes "updateSplitTunnel depth fsE fsV params tn tr tu excludedApps vpnOnlyApps' tk = Some tk'"
  shows "pids_disjoint (fst tk') \<longleftrightarrow>
           (isValid (splitTunnelNetScan params) \<longrightarrow>
            scans_disjoint fsE fsV excludedApps vpnOnlyApps')"
proof -
  obtain t1 k1 where u: "updateNetwork params tn tr tu tk = (t1, k1)"
    by (cases "updateNetwork params tn tr tu tk")
  have a: "updateApps depth fsE fsV excludedApps vpnOnlyApps' (t1, k1) = Some (fst tk', snd tk')"
    using assms u by (simp add: updateSplitTunnel_def)
  have "previousNetScan t1 = splitTunnelNetScan params"
    using updateNetwork_tracker [of params tn tr tu tk] u by simp
  then show ?thesis using updateApps_disjoint [OF a] by simp
qed

lemma scans_disjoint_lists:
  assumes "set excludedApps \<inter> set vpnOnlyApps' = {}"
    and "\<forall>p \<in> set (proc_entries fsE) \<inter> set (proc_entries fsV). pathForPid fsE p = pathForPid fsV p"
  shows "scans_disjoint fsE fsV excludedApps vpnOnlyApps'"
  unfolding scans_disjoint_def
proof (intro ballI)
  fix a b
  assume ab: "a \<in> set excludedApps" "b \<in> set vpnOnlyApps'"
  show "set (pidsForPath fsE a) \<inter> set (pidsForPath fsV b) = {}"
  proof (rule ccontr)
    assume "set (pidsForPath fsE a) \<inter> set (pidsForPath fsV b) \<noteq> {}"
    then obtain p where "p \<in> set (pidsForPath fsE a)" "p \<in> set (pidsForPath fsV b)" by blast
    then have "p \<in> set (proc_entries fsE) \<inter> set (proc_entries fsV)"
      and "pathForPid fsE p = a" and "pathForPid fsV p = b"
      by (simp_all add: set_pidsForPath)
    then have "a = b" using assms(2) by auto
    then show False using ab assms(1) by blast
  qed
qed

lemma initiateConnection_disjoint:
  assumes "initiateConnection depth fsE fsV sys params tn tr tu tk = Some tk'"
    and "pids_disjoint (fst tk)"
    and "isValid (splitTunnelNetScan params) \<longrightarrow>
         scans_disjoint fsE fsV (excludeApps params) (vpnOnlyApps params)"
  shows "pids_disjoint (fst tk')"
  using assms(1)
proof (cases rule: initiateConnection_maps)
  case unchanged
  then show ?thesis using assms(2) by (simp add: pids_disjoint_def)
next
  case emptied
  then show ?thesis by (simp add: pids_disjoint_def app_pids_Nil)
next
  case (updated tk0 tk1)
  have "pids_disjoint (fst tk1)"
    using updateSplitTunnel_disjoint [OF updated(1)] assms(3) by simp
  then show ?thesis using updated(2,3) by (simp add: pids_disjoint_def)
qed

lemma shutdownConnection_disjoint:
  assumes "shutdownConnection depth fs tk = Some tk'"
  shows "pids_disjoint (fst tk')"
  using shutdownConnection_tracker [OF assms] by (simp add: pids_disjoint_def app_pids_Nil)

lemma removeTerminatedApp_disjoint:
  assumes "pids_disjoint t"
  shows "pids_disjoint (removeTerminatedApp pid t)"
  using assms by (auto simp add: pids_disjoint_def removeTerminatedApp_def app_pids_removeAll)

lemma pids_disjoint_insert:
  assumes "pids_disjoint t"
  shows "pids_disjoint (t\<lparr>exclusionsMap := app_insert_pid a pid (exclusionsMap t)\<rparr>) \<longleftrightarrow>
           (\<forall>b. pid \<notin> set (app_pids (vpnOnlyMap t) b))"
    and "pids_disjoint (t\<lparr>vpnOnlyMap := app_insert_pid a pid (vpnOnlyMap t)\<rparr>) \<longleftrightarrow>
           (\<forall>b. pid \<notin> set (app_pids (exclusionsMap t) b))"
proof -
  have d: "set (app_pids (exclusionsMap t) x) \<inter> set (app_pids (vpnOnlyMap t) y) = {}" for x y
    using assms by (simp add: pids_disjoint_def)
  show "pids_disjoint (t\<lparr>exclusionsMap := app_insert_pid a pid (exclusionsMap t)\<rparr>) \<longleftrightarrow>
           (\<forall>b. pid \<notin> set (app_pids (vpnOnlyMap t) b))"
  proof
    assume "pids_disjoint (t\<lparr>exclusionsMap := app_insert_pid a pid (exclusionsMap t)\<rparr>)"
    then have "set (app_pids (app_insert_pid a pid (exclusionsMap t)) a) \<inter>
               set (app_pids (vpnOnlyMap t) b) = {}" for b
      by (simp add: pids_disjoint_def)
    then show "\<forall>b. pid \<notin> set (app_pids (vpnOnlyMap t) b)"
      by (simp add: app_pids_insert_pid)
  next
    assume n: "\<forall>b. pid \<notin> set (app_pids (vpnOnlyMap t) b)"
    show "pids_disjoint (t\<lparr>exclusionsMap := app_insert_pid a pid (exclusionsMap t)\<rparr>)"
      unfolding pids_disjoint_def
    proof (intro allI)
      fix x y
      show "set (app_pids (exclusionsMap (t\<lparr>exclusionsMap := app_insert_pid a pid (exclusionsMap t)\<rparr>)) x) \<inter>
            set (app_pids (vpnOnlyMap (t\<lparr>exclusionsMap := app_insert_pid a pid (exclusionsMap t)\<rparr>)) y) = {}"
        using n d [of x y] d [of a y] by (simp add: app_pids_insert_pid)
    qed
  qed
  show "pids_disjoint (t\<lparr>vpnOnlyMap := app_insert_pid a pid (vpnOnlyMap t)\<rparr>) \<longleftrightarrow>
           (\<forall>b. pid \<notin> set (app_pids (exclusionsMap t) b))"
  proof
    assume "pids_disjoint (t\<lparr>vpnOnlyMap := app_insert_pid a pid (vpnOnlyMap t)\<rparr>)"
    then have "set (app_pids (exclusionsMap t) b) \<inter>
               set (app_pids (app_insert_pid a pid (vpnOnlyMap t)) a) = {}" for b
      by (simp add: pids_disjoint_def)
    then show "\<forall>b. pid \<notin> set (app_pids (exclusionsMap t) b)"
      by (simp add: app_pids_insert_pid)
  next
    assume n: "\<forall>b. pid \<notin> set (app_pids (exclusionsMap t) b)"
    show "pids_disjoint (t\<lparr>vpnOnlyMap := app_insert_pid a pid (vpnOnlyMap t)\<rparr>)"
      unfolding pids_disjoint_def
    proof (intro allI)
      fix x y
      show "set (app_pids (exclusionsMap (t\<lparr>vpnOnlyMap := app_insert_pid a pid (vpnOnlyMap t)\<rparr>)) x) \<inter>
            set (app_pids (vpnOnlyMap (t\<lparr>vpnOnlyMap := app_insert_pid a pid (vpnOnlyMap t)\<rparr>)) y) = {}"
        using n d [of x y] d [of x a] by (simp add: app_pids_insert_pid)
    qed
  qed
qed

lemma addLaunchedApp_disjoint:
  assumes "addLaunchedApp depth fs pid tk = Some tk'" and "pids_disjoint (fst tk)"
  shows "pids_disjoint (fst tk') \<longleftrightarrow>
           (exclusionsMap (fst tk') \<noteq> exclusionsMap (fst tk) \<longrightarrow>
              (\<forall>b. pid \<notin> set (app_pids (vpnOnlyMap (fst tk)) b))) \<and>
           (vpnOnlyMap (fst tk') \<noteq> vpnOnlyMap (fst tk) \<longrightarrow>
              (\<forall>a. pid \<notin> set (app_pids (exclusionsMap (fst tk)) a)))"
  using assms(1)
proof (cases rule: addLaunchedApp_cases)
  case ignored
  then show ?thesis using assms(2) by simp
next
  case (excluded k')
  let ?a = "pathForPid fs pid"
  have v: "vpnOnlyMap (fst tk') = vpnOnlyMap (fst tk)" using excluded(5) by simp
  have t': "fst tk' = (fst tk)\<lparr>exclusionsMap := app_insert_pid ?a pid (exclusionsMap (fst tk))\<rparr>"
    using excluded(5) by simp
  show ?thesis
  proof (cases "exclusionsMap (fst tk') = exclusionsMap (fst tk)")
    case True
    then have "fst tk' = fst tk" using t' by simp
    then show ?thesis using assms(2) by simp
  next
    case False
    then show ?thesis using pids_disjoint_insert(1) [OF assms(2), of ?a pid] v t' by simp
  qed
next
  case (vpn_only k')
  let ?a = "pathForPid fs pid"
  have e: "exclusionsMap (fst tk') = exclusionsMap (fst tk)" using vpn_only(5) by simp
  have t': "fst tk' = (fst tk)\<lparr>vpnOnlyMap := app_insert_pid ?a pid (vpnOnlyMap (fst tk))\<rparr>"
    using vpn_only(5) by simp
  show ?thesis
  proof (cases "vpnOnlyMap (fst tk') = vpnOnlyMap (fst tk)")
    case True
    then have "fst tk' = fst tk" using t' by simp
    then show ?thesis using assms(2) by simp
  next
    case False
    then show ?thesis using pids_disjoint_insert(2) [OF assms(2), of ?a pid] e t' by simp
  qed
qed

lemma disjoint_run:
  "\<exists>s1 s2 s3 s5 s6 s7 s8.
     initiateConnection (Suc (Suc 0)) family_proc launch_proc ok_calls foo_and_sh ''tun0'' ''10.0.0.2''
       ''10.0.0.1'' (initial_tracker, boot_kernel) = Some s1 \<and>
     exclusionsMap (fst s1) = [(''/usr/bin/foo'', [5])] \<and>
     vpnOnlyMap (fst s1) = [(''/bin/sh'', [6])] \<and>
     addLaunchedApp (Suc (Suc 0)) launch_proc 8 s1 = Some s2 \<and>
     exclusionsMap (fst s2) = [(''/usr/bin/foo'', [8, 5])] \<and>
     vpnOnlyMap (fst s2) = [(''/bin/sh'', [6])] \<and>
     addLaunchedApp (Suc (Suc 0)) launch_proc 5 s2 = Some s3 \<and>
     exclusionsMap (fst s3) = [(''/usr/bin/foo'', [8, 5])] \<and>
     vpnOnlyMap (fst s3) = [(''/bin/sh'', [6])] \<and>
     updateSplitTunnel (Suc (Suc 0)) family_proc family_proc foo_and_sh ''tun0'' ''10.0.0.2'' ''10.0.0.1''
       (excludeApps foo_and_sh) (vpnOnlyApps foo_and_sh) (removeTerminatedApp 8 (fst s3), snd s3)
       = Some s5 \<and>
     shutdownConnection (Suc (Suc 0)) family_proc s5 = Some s6 \<and>
     updateSplitTunnel (Suc (Suc 0)) family_proc exec_proc foo_and_sh ''tun0'' ''10.0.0.2'' ''10.0.0.1''
       (excludeApps foo_and_sh) (vpnOnlyApps foo_and_sh) s1 = Some s7 \<and>
     addLaunchedApp (Suc (Suc 0)) exec_proc 5 s1 = Some s8 \<and>
     vpnOnlyMap (fst s8) = [(''/bin/sh'', [5, 6])]"
  by (simp add: run_defs foo_and_sh_def launch_proc_def exec_proc_def)

lemmas scenario_defs = first_session_def after_first_session_def second_session_def
  loose_second_session_def vpn_only_session_def move_foo_to_bypass_def rewrite_rp_filter_def
  observable_def table_rules_def

lemma session_shut_down:
  "\<exists>tk tk'. initiateConnection (Suc (Suc 0)) family_proc family_proc ok_calls exclude_foo ''tun0'' ''10.0.0.2''
           ''10.0.0.1'' (initial_tracker, boot_kernel) = Some tk \<and>
        sockFd (fst tk) = 7 \<and>
        shutdownConnection (Suc (Suc 0)) family_proc tk = Some tk'"
  by (simp add: run_defs)

section \<open>The claims\<close>

text \<open>
  Claim C1, evaluated on a session with tunnel address 10.0.0.2 started under
  \<^verbatim>\<open>rp_filter\<close> 1.  After \<^verbatim>\<open>shutdownConnection\<close> the previous network scan is empty and the
  descriptor is -1, but the previous tunnel local address is still 10.0.0.2 and the saved
  \<^verbatim>\<open>rp_filter\<close> value is still 1.  The first session had the vpn-only source-IP rule; a
  second session with the same tunnel address has none, because the stale address makes
  \<^verbatim>\<open>updateNetwork\<close> see no change.
\<close>

theorem shutdownConnection_leaves_tunnel_address_and_rp_filter:
  "map_option (previousNetScan \<circ> fst) after_first_session = Some empty_scan \<and>
   map_option (sockFd \<circ> fst) after_first_session = Some (- 1) \<and>
   map_option (previousTunnelDeviceLocalAddress \<circ> fst) after_first_session = Some ''10.0.0.2'' \<and>
   map_option (previousRPFilter \<circ> fst) after_first_session = Some ''1'' \<and>
   map_option (table_rules kVpnOnlyRtableName \<circ> snd) first_session =
     Some [(''10.0.0.2'', kVpnOnlyRtableName)] \<and>
   map_option (table_rules kVpnOnlyRtableName \<circ> snd) second_session = Some []"
  by (simp add: scenario_defs run_defs)

text \<open>
  Claim C2.  In every state the tracker reaches through its public operations
  (\<^verbatim>\<open>initiateConnection\<close>, \<^verbatim>\<open>updateSplitTunnel\<close>, \<^verbatim>\<open>shutdownConnection\<close>,
  \<^verbatim>\<open>addLaunchedApp\<close>, \<^verbatim>\<open>removeTerminatedApp\<close>), an invalid network scan goes with an
  empty exclusions map.  In particular, from any state whatever, also one that tracks
  excluded applications: \<^verbatim>\<open>addLaunchedApp\<close> leaves the exclusions map as it is while the
  scan is invalid, \<^verbatim>\<open>updateApps\<close> called with an invalid scan returns with an empty
  exclusions map, and so does \<^verbatim>\<open>updateSplitTunnel\<close> called with parameters whose scan is
  invalid.
\<close>

theorem invalid_scan_means_no_exclusions:
  "(reachable tk \<longrightarrow> gating tk) \<and>
   (\<not> isValid (previousNetScan (fst tk)) \<longrightarrow> addLaunchedApp depth fs pid tk = Some tk' \<longrightarrow>
      exclusionsMap (fst tk') = exclusionsMap (fst tk)) \<and>
   (\<not> isValid (previousNetScan (fst tk)) \<longrightarrow>
      updateApps depth fsE fsV excludedApps vpnOnlyApps' tk = Some tk' \<longrightarrow>
      exclusionsMap (fst tk') = []) \<and>
   (\<not> isValid (splitTunnelNetScan params) \<longrightarrow>
      updateSplitTunnel depth fsE fsV params tunName tunLocal tunRemote excludedApps vpnOnlyApps' tk
        = Some tk' \<longrightarrow>
      \<not> isValid (previousNetScan (fst tk')) \<and> exclusionsMap (fst tk') = [])"
proof (intro conjI impI)
  assume "reachable tk"
  then show "gating tk" by (rule reachable_gating)
next
  assume "\<not> isValid (previousNetScan (fst tk))" "addLaunchedApp depth fs pid tk = Some tk'"
  then show "exclusionsMap (fst tk') = exclusionsMap (fst tk)"
    by (rule addLaunchedApp_exclusions_gated [rotated])
next
  assume "\<not> isValid (previousNetScan (fst tk))"
    "updateApps depth fsE fsV excludedApps vpnOnlyApps' tk = Some tk'"
  then show "exclusionsMap (fst tk') = []"
    using updateApps_maps(3) [of depth fsE fsV excludedApps vpnOnlyApps' "fst tk" "snd tk" "fst tk'" "snd tk'"]
    by simp
next
  assume i: "\<not> isValid (splitTunnelNetScan params)"
    and u: "updateSplitTunnel depth fsE fsV params tunName tunLocal tunRemote excludedApps vpnOnlyApps' tk
        = Some tk'"
  have "previousNetScan (fst tk') = splitTunnelNetScan params"
    using updateSplitTunnel_tracker [OF u]
    by (metis proc_tracker.select_convs(3) proc_tracker.surjective proc_tracker.update_convs(3,4,6,7))
  then show n: "\<not> isValid (previousNetScan (fst tk'))" using i by simp
  show "exclusionsMap (fst tk') = []"
    using updateSplitTunnel_gating [OF u] n by (simp add: gating_def)
qed

theorem invalid_scan_means_no_exclusions_witness:
  "\<exists>s1 mid s2 s3.
     initiateConnection (Suc (Suc 0)) family_proc family_proc ok_calls exclude_foo ''tun0'' ''10.0.0.2''
       ''10.0.0.1'' (initial_tracker, boot_kernel) = Some s1 \<and>
     exclusionsMap (fst s1) = [(''/usr/bin/foo'', [5])] \<and>
     mid = updateNetwork offline_foo ''tun0'' ''10.0.0.2'' ''10.0.0.1'' s1 \<and>
     \<not> isValid (previousNetScan (fst mid)) \<and>
     exclusionsMap (fst mid) = [(''/usr/bin/foo'', [5])] \<and>
     addLaunchedApp (Suc (Suc 0)) launch_proc 8 mid = Some s2 \<and>
     exclusionsMap (fst s2) = [(''/usr/bin/foo'', [5])] \<and>
     updateApps (Suc (Suc 0)) family_proc family_proc [''/usr/bin/foo''] [] mid = Some s3 \<and>
     updateSplitTunnel (Suc (Suc 0)) family_proc family_proc offline_foo ''tun0'' ''10.0.0.2''
       ''10.0.0.1'' [''/usr/bin/foo''] [] s1 = Some s3 \<and>
     exclusionsMap (fst s3) = [] \<and> \<not> isValid (previousNetScan (fst s3)) \<and>
     reachable s3 \<and> gating s3"
proof -
  define mid where "mid = updateNetwork offline_foo ''tun0'' ''10.0.0.2'' ''10.0.0.1''"
  obtain s1 s2 s3 where
    run: "initiateConnection (Suc (Suc 0)) family_proc family_proc ok_calls exclude_foo ''tun0''
            ''10.0.0.2'' ''10.0.0.1'' (initial_tracker, boot_kernel) = Some s1"
    and e1: "exclusionsMap (fst s1) = [(''/usr/bin/foo'', [5])]"
    and scan: "previousNetScan (fst (mid s1)) = empty_scan"
    and em: "exclusionsMap (fst (mid s1)) = [(''/usr/bin/foo'', [5])]"
    and launch: "addLaunchedApp (Suc (Suc 0)) launch_proc 8 (mid s1) = Some s2"
    and apps: "updateApps (Suc (Suc 0)) family_proc family_proc [''/usr/bin/foo''] [] (mid s1) = Some s3"
    unfolding mid_def using session_goes_offline by blast
  have update: "updateSplitTunnel (Suc (Suc 0)) family_proc family_proc offline_foo ''tun0'' ''10.0.0.2''
       ''10.0.0.1'' [''/usr/bin/foo''] [] s1 = Some s3"
    using apps by (simp add: updateSplitTunnel_def mid_def)
  have invalid: "\<not> isValid (previousNetScan (fst (mid s1)))"
    by (simp add: scan isValid_def empty_scan_def)
  have offline: "\<not> isValid (splitTunnelNetScan offline_foo)"
    by (simp add: offline_foo_def isValid_def empty_scan_def)
  have e2: "exclusionsMap (fst s2) = [(''/usr/bin/foo'', [5])]"
    using invalid_scan_means_no_exclusions [where tk = "mid s1" and tk' = s2 and fs = launch_proc
        and depth = "Suc (Suc 0)" and pid = 8] invalid launch em
    by simp
  have e3: "exclusionsMap (fst s3) = []"
    using invalid_scan_means_no_exclusions [where tk = "mid s1" and tk' = s3 and fsE = family_proc
        and fsV = family_proc and depth = "Suc (Suc 0)" and excludedApps = "[''/usr/bin/foo'']"
        and vpnOnlyApps' = "[]"] invalid apps
    by simp
  have i3: "\<not> isValid (previousNetScan (fst s3))"
    using invalid_scan_means_no_exclusions [where tk = s1 and tk' = s3 and fsE = family_proc
        and fsV = family_proc and depth = "Suc (Suc 0)" and excludedApps = "[''/usr/bin/foo'']"
        and vpnOnlyApps' = "[]" and params = offline_foo and tunName = "''tun0''"
        and tunLocal = "''10.0.0.2''" and tunRemote = "''10.0.0.1''"] offline update
    by simp
  have "reachable (initial_tracker, boot_kernel)"
    by (rule reachable.boot) (simp_all add: boot_kernel_def)
  then have "reachable s1"
    using public_op.initiate [OF run] by (rule reachable.op)
  then have r3: "reachable s3"
    using public_op.update [OF update] by (rule reachable.op)
  have g3: "gating s3"
    using invalid_scan_means_no_exclusions [where tk = s3] r3 by simp
  show ?thesis
    using run e1 invalid em launch e2 apps update e3 i3 r3 g3 by (intro exI [of _ s1] exI [of _ "mid s1"] exI [of _ s2] exI [of _ s3]) (simp add: mid_def)
qed

text \<open>
  Claim C3, as amended.  The tracker has no cross-map check, so disjointness rests on what
  the two scans of /proc return.  After \<^verbatim>\<open>updateSplitTunnel\<close> returns, no pid is in a path
  set of both maps exactly when the scan of the parameters is invalid or no pid returned by
  the scan for an excluded path is returned by the scan for a VPN-only path; the latter
  holds when the two lists share no path and every pid that both scans see resolves to the
  same executable in both.  The same condition keeps the maps disjoint across
  \<^verbatim>\<open>initiateConnection\<close>.  \<^verbatim>\<open>shutdownConnection\<close> empties both maps and
  \<^verbatim>\<open>removeTerminatedApp\<close> keeps them disjoint.  \<^verbatim>\<open>addLaunchedApp\<close>, from disjoint maps,
  returns with disjoint maps exactly when it does not change one map while the launched
  pid is in a path set of the other.
\<close>

theorem no_pid_in_both_maps_for_disjoint_scans:
  "(updateSplitTunnel depth fsE fsV params tunName tunLocal tunRemote excludedApps vpnOnlyApps' tk = Some tk'
      \<longrightarrow> (pids_disjoint (fst tk') \<longleftrightarrow>
             (isValid (splitTunnelNetScan params) \<longrightarrow>
              scans_disjoint fsE fsV excludedApps vpnOnlyApps'))) \<and>
   (set excludedApps \<inter> set vpnOnlyApps' = {} \<longrightarrow>
      (\<forall>p \<in> set (proc_entries fsE) \<inter> set (proc_entries fsV). pathForPid fsE p = pathForPid fsV p)
      \<longrightarrow> scans_disjoint fsE fsV excludedApps vpnOnlyApps') \<and>
   (initiateConnection depth fsE fsV sys params tunName tunLocal tunRemote tk = Some tk'
      \<longrightarrow> pids_disjoint (fst tk)
      \<longrightarrow> (isValid (splitTunnelNetScan params) \<longrightarrow>
             scans_disjoint fsE fsV (excludeApps params) (vpnOnlyApps params))
      \<longrightarrow> pids_disjoint (fst tk')) \<and>
   (shutdownConnection depth fs tk = Some tk' \<longrightarrow> pids_disjoint (fst tk')) \<and>
   (pids_disjoint (fst tk) \<longrightarrow> pids_disjoint (removeTerminatedApp pid (fst tk))) \<and>
   (addLaunchedApp depth fs pid tk = Some tk' \<longrightarrow> pids_disjoint (fst tk)
      \<longrightarrow> (pids_disjoint (fst tk') \<longleftrightarrow>
             (exclusionsMap (fst tk') \<noteq> exclusionsMap (fst tk) \<longrightarrow>
                (\<forall>b. pid \<notin> set (app_pids (vpnOnlyMap (fst tk)) b))) \<and>
             (vpnOnlyMap (fst tk') \<noteq> vpnOnlyMap (fst tk) \<longrightarrow>
                (\<forall>a. pid \<notin> set (app_pids (exclusionsMap (fst tk)) a)))))"
proof (intro conjI impI)
  assume "updateSplitTunnel depth fsE fsV params tunName tunLocal tunRemote excludedApps vpnOnlyApps' tk = Some tk'"
  then show "pids_disjoint (fst tk') \<longleftrightarrow>
             (isValid (splitTunnelNetScan params) \<longrightarrow>
              scans_disjoint fsE fsV excludedApps vpnOnlyApps')"
    by (rule updateSplitTunnel_disjoint)
next
  assume "set excludedApps \<inter> set vpnOnlyApps' = {}"
    "\<forall>p \<in> set (proc_entries fsE) \<inter> set (proc_entries fsV). pathForPid fsE p = pathForPid fsV p"
  then show "scans_disjoint fsE fsV excludedApps vpnOnlyApps'" by (rule scans_disjoint_lists)
next
  assume "initiateConnection depth fsE fsV sys params tunName tunLocal tunRemote tk = Some tk'"
    "pids_disjoint (fst tk)"
    "isValid (splitTunnelNetScan params) \<longrightarrow>
       scans_disjoint fsE fsV (excludeApps params) (vpnOnlyApps params)"
  then show "pids_disjoint (fst tk')" by (rule initiateConnection_disjoint)
next
  assume "shutdownConnection depth fs tk = Some tk'"
  then show "pids_disjoint (fst tk')" by (rule shutdownConnection_disjoint)
next
  assume "pids_disjoint (fst tk)"
  then show "pids_disjoint (removeTerminatedApp pid (fst tk))" by (rule removeTerminatedApp_disjoint)
next
  assume "addLaunchedApp depth fs pid tk = Some tk'" "pids_disjoint (fst tk)"
  then show "pids_disjoint (fst tk') \<longleftrightarrow>
             (exclusionsMap (fst tk') \<noteq> exclusionsMap (fst tk) \<longrightarrow>
                (\<forall>b. pid \<notin> set (app_pids (vpnOnlyMap (fst tk)) b))) \<and>
             (vpnOnlyMap (fst tk') \<noteq> vpnOnlyMap (fst tk) \<longrightarrow>
                (\<forall>a. pid \<notin> set (app_pids (exclusionsMap (fst tk)) a)))"
    by (rule addLaunchedApp_disjoint)
qed

text \<open>The session starts while the scan for the excluded \<^verbatim>\<open>/usr/bin/foo\<close> sees the
  processes 5 and 6 and the scan for the VPN-only \<^verbatim>\<open>/bin/sh\<close> already sees process 8 as
  well.  Then 8 is reported as launched, 5 is reported again, 8 terminates, the split
  tunnel is updated and the session is shut down: the maps are disjoint throughout.  When
  instead process 5 replaces its image by \<^verbatim>\<open>/bin/sh\<close> between the two scans of an update,
  or is reported after it has done so, it is in both maps.\<close>

theorem no_pid_in_both_maps_for_disjoint_scans_witness:
  "\<exists>s1 s2 s3 s5 s6 s7 s8.
     initiateConnection (Suc (Suc 0)) family_proc launch_proc ok_calls foo_and_sh ''tun0'' ''10.0.0.2''
       ''10.0.0.1'' (initial_tracker, boot_kernel) = Some s1 \<and>
     addLaunchedApp (Suc (Suc 0)) launch_proc 8 s1 = Some s2 \<and>
     exclusionsMap (fst s2) \<noteq> exclusionsMap (fst s1) \<and>
     addLaunchedApp (Suc (Suc 0)) launch_proc 5 s2 = Some s3 \<and>
     5 \<in> set (app_pids (exclusionsMap (fst s2)) ''/usr/bin/foo'') \<and>
     updateSplitTunnel (Suc (Suc 0)) family_proc family_proc foo_and_sh ''tun0'' ''10.0.0.2'' ''10.0.0.1''
       (excludeApps foo_and_sh) (vpnOnlyApps foo_and_sh) (removeTerminatedApp 8 (fst s3), snd s3)
       = Some s5 \<and>
     shutdownConnection (Suc (Suc 0)) family_proc s5 = Some s6 \<and>
     scans_disjoint family_proc launch_proc (excludeApps foo_and_sh) (vpnOnlyApps foo_and_sh) \<and>
     pids_disjoint (fst s1) \<and> pids_disjoint (fst s2) \<and> pids_disjoint (fst s3) \<and>
     pids_disjoint (removeTerminatedApp 8 (fst s3)) \<and> pids_disjoint (fst s5) \<and>
     pids_disjoint (fst s6) \<and>
     updateSplitTunnel (Suc (Suc 0)) family_proc exec_proc foo_and_sh ''tun0'' ''10.0.0.2'' ''10.0.0.1''
       (excludeApps foo_and_sh) (vpnOnlyApps foo_and_sh) s1 = Some s7 \<and>
     \<not> pids_disjoint (fst s7) \<and>
     addLaunchedApp (Suc (Suc 0)) exec_proc 5 s1 = Some s8 \<and>
     \<not> pids_disjoint (fst s8)"
proof -
  obtain s1 s2 s3 s5 s6 s7 s8 where
    r1: "initiateConnection (Suc (Suc 0)) family_proc launch_proc ok_calls foo_and_sh ''tun0'' ''10.0.0.2''
       ''10.0.0.1'' (initial_tracker, boot_kernel) = Some s1"
    and e1: "exclusionsMap (fst s1) = [(''/usr/bin/foo'', [5])]"
    and v1: "vpnOnlyMap (fst s1) = [(''/bin/sh'', [6])]"
    and r2: "addLaunchedApp (Suc (Suc 0)) launch_proc 8 s1 = Some s2"
    and e2: "exclusionsMap (fst s2) = [(''/usr/bin/foo'', [8, 5])]"
    and v2: "vpnOnlyMap (fst s2) = [(''/bin/sh'', [6])]"
    and r3: "addLaunchedApp (Suc (Suc 0)) launch_proc 5 s2 = Some s3"
    and e3: "exclusionsMap (fst s3) = [(''/usr/bin/foo'', [8, 5])]"
    and v3: "vpnOnlyMap (fst s3) = [(''/bin/sh'', [6])]"
    and r5: "updateSplitTunnel (Suc (Suc 0)) family_proc family_proc foo_and_sh ''tun0'' ''10.0.0.2''
       ''10.0.0.1'' (excludeApps foo_and_sh) (vpnOnlyApps foo_and_sh)
       (removeTerminatedApp 8 (fst s3), snd s3) = Some s5"
    and r6: "shutdownConnection (Suc (Suc 0)) family_proc s5 = Some s6"
    and r7: "updateSplitTunnel (Suc (Suc 0)) family_proc exec_proc foo_and_sh ''tun0'' ''10.0.0.2'' ''10.0.0.1''
       (excludeApps foo_and_sh) (vpnOnlyApps foo_and_sh) s1 = Some s7"
    and r8: "addLaunchedApp (Suc (Suc 0)) exec_proc 5 s1 = Some s8"
    and v8: "vpnOnlyMap (fst s8) = [(''/bin/sh'', [5, 6])]"
    using disjoint_run by blast
  have lists: "set (excludeApps foo_and_sh) \<inter> set (vpnOnlyApps foo_and_sh) = {}"
    by (simp add: foo_and_sh_def)
  have valid: "isValid (splitTunnelNetScan foo_and_sh)"
    by (simp add: foo_and_sh_def home_scan_def isValid_def)
  have agree1: "\<forall>p \<in> set (proc_entries family_proc) \<inter> set (proc_entries launch_proc).
                  pathForPid family_proc p = pathForPid launch_proc p"
    by (simp add: family_proc_def launch_proc_def pathForPid_def)
  have agree2: "\<forall>p \<in> set (proc_entries family_proc) \<inter> set (proc_entries family_proc).
                  pathForPid family_proc p = pathForPid family_proc p"
    by simp
  have sd1: "scans_disjoint family_proc launch_proc (excludeApps foo_and_sh) (vpnOnlyApps foo_and_sh)"
    using no_pid_in_both_maps_for_disjoint_scans [where fsE = family_proc and fsV = launch_proc
        and excludedApps = "excludeApps foo_and_sh" and vpnOnlyApps' = "vpnOnlyApps foo_and_sh"]
      lists agree1 by blast
  have sd2: "scans_disjoint family_proc family_proc (excludeApps foo_and_sh) (vpnOnlyApps foo_and_sh)"
    using no_pid_in_both_maps_for_disjoint_scans [where fsE = family_proc and fsV = family_proc
        and excludedApps = "excludeApps foo_and_sh" and vpnOnlyApps' = "vpnOnlyApps foo_and_sh"]
      lists agree2 by blast
  have overlap: "\<not> scans_disjoint family_proc exec_proc (excludeApps foo_and_sh) (vpnOnlyApps foo_and_sh)"
    by (simp add: scans_disjoint_def foo_and_sh_def proc_defs family_proc_def exec_proc_def)
  have d0: "pids_disjoint (fst (initial_tracker, boot_kernel))"
    by (simp add: pids_disjoint_def initial_tracker_def app_pids_def)
  have d1: "pids_disjoint (fst s1)"
    using no_pid_in_both_maps_for_disjoint_scans [where tk = "(initial_tracker, boot_kernel)"
        and tk' = s1 and fsE = family_proc and fsV = launch_proc and params = foo_and_sh
        and depth = "Suc (Suc 0)" and sys = ok_calls and tunName = "''tun0''"
        and tunLocal = "''10.0.0.2''" and tunRemote = "''10.0.0.1''"] r1 d0 sd1
    by blast
  have changed: "exclusionsMap (fst s2) \<noteq> exclusionsMap (fst s1)" by (simp add: e1 e2)
  have new8: "\<forall>b. 8 \<notin> set (app_pids (vpnOnlyMap (fst s1)) b)" by (simp add: v1 app_pids_def)
  have same2: "vpnOnlyMap (fst s2) = vpnOnlyMap (fst s1)" by (simp add: v1 v2)
  have d2: "pids_disjoint (fst s2)"
    using no_pid_in_both_maps_for_disjoint_scans [where tk = s1 and tk' = s2 and fs = launch_proc
        and depth = "Suc (Suc 0)" and pid = 8] r2 d1 new8 same2
    by blast
  have in5: "5 \<in> set (app_pids (exclusionsMap (fst s2)) ''/usr/bin/foo'')"
    by (simp add: e2 app_pids_def)
  have new5: "\<forall>b. 5 \<notin> set (app_pids (vpnOnlyMap (fst s2)) b)" by (simp add: v2 app_pids_def)
  have same3: "exclusionsMap (fst s3) = exclusionsMap (fst s2)"
    and same3': "vpnOnlyMap (fst s3) = vpnOnlyMap (fst s2)"
    by (simp_all add: e2 e3 v2 v3)
  have d3: "pids_disjoint (fst s3)"
    using no_pid_in_both_maps_for_disjoint_scans [where tk = s2 and tk' = s3 and fs = launch_proc
        and depth = "Suc (Suc 0)" and pid = 5] r3 d2 new5 same3 same3'
    by blast
  have d4: "pids_disjoint (removeTerminatedApp 8 (fst s3))"
    using no_pid_in_both_maps_for_disjoint_scans [where tk = s3 and pid = 8] d3 by blast
  have d5: "pids_disjoint (fst s5)"
    using no_pid_in_both_maps_for_disjoint_scans [where tk = "(removeTerminatedApp 8 (fst s3), snd s3)"
        and tk' = s5 and fsE = family_proc and fsV = family_proc and params = foo_and_sh
        and depth = "Suc (Suc 0)" and tunName = "''tun0''" and tunLocal = "''10.0.0.2''"
        and tunRemote = "''10.0.0.1''" and excludedApps = "excludeApps foo_and_sh"
        and vpnOnlyApps' = "vpnOnlyApps foo_and_sh"] r5 sd2
    by blast
  have d6: "pids_disjoint (fst s6)"
    using no_pid_in_both_maps_for_disjoint_scans [where tk = s5 and tk' = s6 and fs = family_proc
        and depth = "Suc (Suc 0)"] r6 by blast
  have n7: "\<not> pids_disjoint (fst s7)"
    using no_pid_in_both_maps_for_disjoint_scans [where tk = s1
        and tk' = s7 and fsE = family_proc and fsV = exec_proc and params = foo_and_sh
        and depth = "Suc (Suc 0)" and tunName = "''tun0''" and tunLocal = "''10.0.0.2''"
        and tunRemote = "''10.0.0.1''" and excludedApps = "excludeApps foo_and_sh"
        and vpnOnlyApps' = "vpnOnlyApps foo_and_sh"] r7 valid overlap
    by blast
  have changed8: "vpnOnlyMap (fst s8) \<noteq> vpnOnlyMap (fst s1)" by (simp add: v1 v8)
  have in5': "5 \<in> set (app_pids (exclusionsMap (fst s1)) ''/usr/bin/foo'')"
    by (simp add: e1 app_pids_def)
  have n8: "\<not> pids_disjoint (fst s8)"
    using no_pid_in_both_maps_for_disjoint_scans [where tk = s1 and tk' = s8 and fs = exec_proc
        and depth = "Suc (Suc 0)" and pid = 5] r8 d1 changed8 in5'
    by blast
  show ?thesis
    using r1 r2 changed r3 in5 r5 r6 sd1 d1 d2 d3 d4 d5 d6 r7 n7 r8 n8 by blast
qed

text \<open>With \<^verbatim>\<open>/usr/bin/foo\<close> in both lists, pid 5 is in both maps after
  \<^verbatim>\<open>initiateConnection\<close>.  With disjoint lists, pid 5 tracked under the excluded
  \<^verbatim>\<open>/usr/bin/foo\<close> execs the VPN-only \<^verbatim>\<open>/bin/sh\<close>: \<^verbatim>\<open>addLaunchedApp\<close> adds it to the
  vpn-only map and leaves it in the exclusions map.  With disjoint lists again, pid 5 is in
  both maps after an \<^verbatim>\<open>initiateConnection\<close> whose scan for \<^verbatim>\<open>/usr/bin/foo\<close> ran before the
  exec and whose scan for \<^verbatim>\<open>/bin/sh\<close> ran after it.\<close>

theorem shared_path_puts_pid_in_both_maps:
  "map_option (exclusionsMap \<circ> fst)
     (initiateConnection (Suc (Suc 0)) family_proc family_proc ok_calls both_foo ''tun0'' ''10.0.0.2''
        ''10.0.0.1'' (initial_tracker, boot_kernel)) = Some [(''/usr/bin/foo'', [5])] \<and>
   map_option (vpnOnlyMap \<circ> fst)
     (initiateConnection (Suc (Suc 0)) family_proc family_proc ok_calls both_foo ''tun0'' ''10.0.0.2''
        ''10.0.0.1'' (initial_tracker, boot_kernel)) = Some [(''/usr/bin/foo'', [5])] \<and>
   map_option (exclusionsMap \<circ> fst)
     (Option.bind
        (initiateConnection (Suc (Suc 0)) family_proc family_proc ok_calls foo_and_sh ''tun0'' ''10.0.0.2''
           ''10.0.0.1'' (initial_tracker, boot_kernel))
        (addLaunchedApp (Suc (Suc 0)) exec_proc 5)) = Some [(''/usr/bin/foo'', [5])] \<and>
   map_option (vpnOnlyMap \<circ> fst)
     (Option.bind
        (initiateConnection (Suc (Suc 0)) family_proc family_proc ok_calls foo_and_sh ''tun0'' ''10.0.0.2''
           ''10.0.0.1'' (initial_tracker, boot_kernel))
        (addLaunchedApp (Suc (Suc 0)) exec_proc 5)) = Some [(''/bin/sh'', [5, 6])] \<and>
   map_option (exclusionsMap \<circ> fst)
     (initiateConnection (Suc (Suc 0)) family_proc exec_proc ok_calls foo_and_sh ''tun0'' ''10.0.0.2''
        ''10.0.0.1'' (initial_tracker, boot_kernel)) = Some [(''/usr/bin/foo'', [5])] \<and>
   map_option (vpnOnlyMap \<circ> fst)
     (initiateConnection (Suc (Suc 0)) family_proc exec_proc ok_calls foo_and_sh ''tun0'' ''10.0.0.2''
        ''10.0.0.1'' (initial_tracker, boot_kernel)) = Some [(''/bin/sh'', [6, 5])]"
  by (simp add: run_defs foo_and_sh_def exec_proc_def)

text \<open>
  Claim C4, evaluated on the update that moves \<^verbatim>\<open>/usr/bin/foo\<close> from the VPN-only list to
  the excluded list while process 5 runs it.  After one \<^verbatim>\<open>updateSplitTunnel\<close> the
  processes 5 and 6 are in the parent cgroup (the removal from the vpn-only map runs after
  the addition to the exclusions cgroup), although 5 is tracked as excluded; after the same
  call again they are in the exclusions cgroup.  Routes, rules and the masquerade anchor
  agree.
\<close>

theorem second_updateSplitTunnel_changes_cgroups:
  "map_option (exclusionsMap \<circ> fst) (Option.bind vpn_only_session move_foo_to_bypass) =
     Some [(''/usr/bin/foo'', [5])] \<and>
   map_option (observable \<circ> snd) (Option.bind vpn_only_session move_foo_to_bypass) =
     Some ([ParentVpnExclusionsFile, ParentVpnExclusionsFile],
           [Some (''192.168.1.1'', ''eth0''), Some (''10.0.0.1'', ''tun0'')],
           [(''10.0.0.2'', kVpnOnlyRtableName), (''192.168.1.2'', kRtableName)],
           [''-o eth0 -j MASQUERADE'', ''-o tun+ -j MASQUERADE'']) \<and>
   map_option (observable \<circ> snd)
     (Option.bind (Option.bind vpn_only_session move_foo_to_bypass) move_foo_to_bypass) =
     Some ([VpnExclusionsFile, VpnExclusionsFile],
           [Some (''192.168.1.1'', ''eth0''), Some (''10.0.0.1'', ''tun0'')],
           [(''10.0.0.2'', kVpnOnlyRtableName), (''192.168.1.2'', kRtableName)],
           [''-o eth0 -j MASQUERADE'', ''-o tun+ -j MASQUERADE''])"
  by (simp add: scenario_defs run_defs)

text \<open>
  Claim C5.  Along every run of public operations from a fresh tracker, each
  \<^verbatim>\<open>ip rule add\<close> for a table is executed when no rule of that table is installed (the
  rule of the previously stored address has been removed before): the command log
  replays, without an add over a live rule, to the installed rules.  So after every
  public operation at most one source-IP rule exists for the bypass table and at most one
  for the vpn-only table.
\<close>

theorem at_most_one_source_ip_rule_per_table:
  assumes "reachable (t, k)"
  shows "length (table_rules kRtableName k) \<le> 1 \<and>
         length (table_rules kVpnOnlyRtableName k) \<le> 1 \<and>
         replay_rules (shell_log k) = Some (ip_rules k)"
  using reachable_rules [OF assms] by (auto simp add: rules_inv_def rules_follow_def)

theorem at_most_one_source_ip_rule_witness:
  "\<exists>tk1 tk2.
     initiateConnection (Suc (Suc 0)) family_proc family_proc ok_calls exclude_foo ''tun0'' ''10.0.0.2''
       ''10.0.0.1'' (initial_tracker, boot_kernel) = Some tk1 \<and>
     updateSplitTunnel (Suc (Suc 0)) family_proc family_proc roaming_foo ''tun0'' ''10.0.0.2'' ''10.0.0.1''
       (excludeApps roaming_foo) (vpnOnlyApps roaming_foo) tk1 = Some tk2 \<and>
     reachable tk2 \<and>
     ip_rules (snd tk2) = [(''10.1.1.5'', kRtableName), (''10.0.0.2'', kVpnOnlyRtableName)] \<and>
     length (table_rules kRtableName (snd tk2)) \<le> 1 \<and>
     length (table_rules kVpnOnlyRtableName (snd tk2)) \<le> 1 \<and>
     replay_rules (shell_log (snd tk2)) = Some (ip_rules (snd tk2))"
proof -
  obtain tk1 tk2 where
    r1: "initiateConnection (Suc (Suc 0)) family_proc family_proc ok_calls exclude_foo ''tun0'' ''10.0.0.2''
       ''10.0.0.1'' (initial_tracker, boot_kernel) = Some tk1"
    and r2: "updateSplitTunnel (Suc (Suc 0)) family_proc family_proc roaming_foo ''tun0'' ''10.0.0.2''
       ''10.0.0.1'' (excludeApps roaming_foo) (vpnOnlyApps roaming_foo) tk1 = Some tk2"
    and rules: "ip_rules (snd tk2) =
       [(''10.1.1.5'', kRtableName), (''10.0.0.2'', kVpnOnlyRtableName)]"
    using session_roaming by blast
  have "reachable (initial_tracker, boot_kernel)"
    by (rule reachable.boot) (simp_all add: boot_kernel_def)
  then have "reachable tk1" using public_op.initiate [OF r1] by (rule reachable.op)
  then have r: "reachable tk2" using public_op.update [OF r2] by (rule reachable.op)
  then have "reachable (fst tk2, snd tk2)" by simp
  from at_most_one_source_ip_rule_per_table [OF this] show ?thesis
    using r1 r2 r rules by blast
qed

text \<open>
  Claim C6, evaluated on two sessions.  The first starts under \<^verbatim>\<open>rp_filter\<close> 1, saves it,
  sets 2 and restores 1 at its end.  The second starts under \<^verbatim>\<open>rp_filter\<close> 2: its only
  \<^verbatim>\<open>sysctl\<close> command is the read and it saves nothing, yet its shutdown writes the 1 saved
  by the first session.
\<close>

theorem stale_rp_filter_restored_after_loose_session:
  "map_option (previousRPFilter \<circ> fst) first_session = Some ''1'' \<and>
   map_option (rp_filter \<circ> snd) first_session = Some ''2'' \<and>
   map_option (rp_filter \<circ> snd) after_first_session = Some ''1'' \<and>
   map_option (rp_filter \<circ> snd) loose_second_session = Some ''2'' \<and>
   map_option (take 1 \<circ> shell_log \<circ> snd) loose_second_session = Some [SysctlRead] \<and>
   map_option (rp_filter \<circ> snd)
     (Option.bind loose_second_session (shutdownConnection (Suc (Suc 0)) family_proc)) = Some ''1''"
  by (simp add: scenario_defs run_defs)

text \<open>
  Claim C7, as amended.  The add phase of \<^verbatim>\<open>updateApps\<close> treats every path of the
  desired list alike, tracked or not: \<^verbatim>\<open>addApps\<close> resets its entry and fills it from a
  scan of /proc, so the entry holds exactly the pids whose executable resolves to the
  path now.  The entries of paths that are not in the list keep their pid sets.
\<close>

theorem addApps_rescans_every_listed_path:
  assumes "addApps depth fs apps cGroupPath (appMap, k) = Some (appMap', k')"
  shows "tracked_pids appMap' app =
           (if app \<in> set apps then Some (set (pidsForPath fs app)) else tracked_pids appMap app)"
  using addApps_map [OF assms] by (simp add: tracked_pids_fold_scan_app)

theorem addApps_rescans_witness:
  "\<exists>appMap' k'.
     addApps (Suc (Suc 0)) family_proc [''/usr/bin/foo''] VpnExclusionsFile
       ([(''/usr/bin/foo'', [7]), (''/bin/other'', [9])], boot_kernel) = Some (appMap', k') \<and>
     tracked_pids appMap' ''/usr/bin/foo'' = Some {5} \<and>
     tracked_pids appMap' ''/bin/other'' = Some {9}"
proof -
  obtain k' where e: "addApps (Suc (Suc 0)) family_proc [''/usr/bin/foo''] VpnExclusionsFile
       ([(''/usr/bin/foo'', [7]), (''/bin/other'', [9])], boot_kernel)
       = Some ([(''/usr/bin/foo'', [5]), (''/bin/other'', [9])], k')"
    using addApps_family by blast
  have "tracked_pids [(''/usr/bin/foo'', [5]), (''/bin/other'', [9])] ''/usr/bin/foo'' = Some {5}"
    using addApps_rescans_every_listed_path [OF e, of "''/usr/bin/foo''"]
    by (simp add: proc_defs family_proc_def)
  moreover have "tracked_pids [(''/usr/bin/foo'', [5]), (''/bin/other'', [9])] ''/bin/other'' = Some {9}"
    using addApps_rescans_every_listed_path [OF e, of "''/bin/other''"]
    by (simp add: tracked_pids_def)
  ultimately show ?thesis using e by blast
qed

text \<open>The path \<^verbatim>\<open>/usr/bin/foo\<close> is tracked with the pid set {7}; pid 7 is gone from
  /proc and pid 5 runs the program.  The add phase replaces the tracked set by {5}.\<close>

theorem addApps_resets_tracked_entry:
  "map_option fst
     (addApps (Suc (Suc 0)) family_proc [''/usr/bin/foo''] VpnExclusionsFile
        ([(''/usr/bin/foo'', [7])], boot_kernel)) = Some [(''/usr/bin/foo'', [5])]"
  by (simp add: addApps_def proc_defs family_proc_def app_insert_pid_def app_pids_def)

text \<open>
  Claim C8.  When \<^verbatim>\<open>socket\<close>, \<^verbatim>\<open>bind\<close> or the subscribing \<^verbatim>\<open>send\<close> fails,
  \<^verbatim>\<open>initiateConnection\<close> ends in the state its first step left: the state after the
  implicit \<^verbatim>\<open>shutdownConnection\<close> when a socket was open, the untouched state
  otherwise.  The socket descriptor of that state is -1.
\<close>

theorem failed_initiateConnection_stops_after_step_one:
  assumes "socket_ret sys = - 1 \<or> bind_ret sys = - 1 \<or> send_ret sys = - 1"
  shows "initiateConnection depth fsE fsV sys params tunName tunLocal tunRemote tk =
           (if sockFd (fst tk) \<noteq> - 1 then shutdownConnection depth fsE tk else Some tk) \<and>
         (\<forall>tk'. initiateConnection depth fsE fsV sys params tunName tunLocal tunRemote tk = Some tk'
            \<longrightarrow> sockFd (fst tk') = - 1)"
proof (intro conjI allI impI)
  show e: "initiateConnection depth fsE fsV sys params tunName tunLocal tunRemote tk =
           (if sockFd (fst tk) \<noteq> - 1 then shutdownConnection depth fsE tk else Some tk)"
    using assms by (rule initiateConnection_failed)
  fix tk'
  assume "initiateConnection depth fsE fsV sys params tunName tunLocal tunRemote tk = Some tk'"
  then have "(if sockFd (fst tk) \<noteq> - 1 then shutdownConnection depth fsE tk else Some tk) = Some tk'"
    using e by simp
  then show "sockFd (fst tk') = - 1"
    using shutdownConnection_tracker [of depth fsE tk tk'] by (auto split: if_splits)
qed

theorem failed_initiateConnection_witness:
  "\<exists>tk tk'. initiateConnection (Suc (Suc 0)) family_proc family_proc ok_calls exclude_foo ''tun0'' ''10.0.0.2''
           ''10.0.0.1'' (initial_tracker, boot_kernel) = Some tk \<and>
        sockFd (fst tk) = 7 \<and>
        shutdownConnection (Suc (Suc 0)) family_proc tk = Some tk' \<and>
        initiateConnection (Suc (Suc 0)) family_proc family_proc bind_fails exclude_foo ''tun0'' ''10.0.0.2''
           ''10.0.0.1'' tk = Some tk' \<and>
        sockFd (fst tk') = - 1"
proof -
  obtain tk tk' where
    run: "initiateConnection (Suc (Suc 0)) family_proc family_proc ok_calls exclude_foo ''tun0'' ''10.0.0.2''
           ''10.0.0.1'' (initial_tracker, boot_kernel) = Some tk"
    and fd: "sockFd (fst tk) = 7"
    and down: "shutdownConnection (Suc (Suc 0)) family_proc tk = Some tk'"
    using session_shut_down by blast
  have "bind_ret bind_fails = - 1" by (simp add: bind_fails_def)
  then have "socket_ret bind_fails = - 1 \<or> bind_ret bind_fails = - 1 \<or> send_ret bind_fails = - 1"
    by simp
  note failed = failed_initiateConnection_stops_after_step_one
      [OF this, of "Suc (Suc 0)" family_proc family_proc exclude_foo "''tun0''" "''10.0.0.2''"
        "''10.0.0.1''" tk]
  have again: "initiateConnection (Suc (Suc 0)) family_proc family_proc bind_fails exclude_foo ''tun0''
           ''10.0.0.2'' ''10.0.0.1'' tk = Some tk'"
    using failed fd down by simp
  then have "sockFd (fst tk') = - 1" using failed by blast
  then show ?thesis using run fd down again by blast
qed

text \<open>
  Claim C9, as amended.  \<^verbatim>\<open>addPidToCgroup\<close> and \<^verbatim>\<open>removePidFromCgroup\<close> carry no depth
  bound.  They return on every /proc snapshot whose parent relation is acyclic, that
  is, whenever some rank strictly decreases from each pid to each of its children; the
  call depth needed is at most the rank of the starting pid plus one.  They return at no
  depth when the starting pid lies in a set of pids each of which has a child in the set,
  as the pids of a cycle of PPid edges do.
\<close>

theorem cgroup_recursion_returns_on_acyclic_proc:
  "((\<forall>p c. c \<in> set (childPidsOf fs p) \<longrightarrow> rank c < (rank p :: nat)) \<longrightarrow>
      (\<exists>k'. addPidToCgroup (Suc (rank pid)) fs pid cGroupPath k = Some k') \<and>
      (\<exists>k'. removePidFromCgroup (Suc (rank pid)) fs pid cGroupPath k = Some k')) \<and>
   (pid \<in> C \<and> (\<forall>p \<in> C. \<exists>c \<in> set (childPidsOf fs p). c \<in> C) \<longrightarrow>
      addPidToCgroup depth fs pid cGroupPath k = None \<and>
      removePidFromCgroup depth fs pid cGroupPath k = None)"
proof (intro conjI impI)
  assume r: "\<forall>p c. c \<in> set (childPidsOf fs p) \<longrightarrow> rank c < rank p"
  then show "\<exists>k'. addPidToCgroup (Suc (rank pid)) fs pid cGroupPath k = Some k'"
    by (intro addPidToCgroup_returns [where rank = rank]) simp_all
  then show "\<exists>k'. removePidFromCgroup (Suc (rank pid)) fs pid cGroupPath k = Some k'"
    by (simp add: removePidFromCgroup_eq)
next
  assume c: "pid \<in> C \<and> (\<forall>p \<in> C. \<exists>c \<in> set (childPidsOf fs p). c \<in> C)"
  then show "addPidToCgroup depth fs pid cGroupPath k = None"
    by (intro addPidToCgroup_stuck_on_cycle [where C = C]) simp_all
  then show "removePidFromCgroup depth fs pid cGroupPath k = None"
    by (simp add: removePidFromCgroup_eq)
qed

theorem cgroup_recursion_returns_witness:
  "(\<exists>k'. addPidToCgroup 2 family_proc 5 VpnExclusionsFile boot_kernel = Some k') \<and>
   (\<exists>k'. removePidFromCgroup 2 family_proc 5 VpnExclusionsFile boot_kernel = Some k') \<and>
   addPidToCgroup 40 cyclic_proc 6 VpnOnlyFile boot_kernel = None \<and>
   removePidFromCgroup 40 cyclic_proc 6 VpnOnlyFile boot_kernel = None"
proof -
  define rank :: "int \<Rightarrow> nat" where "rank = (\<lambda>p. if p = 1 then 2 else if p = 5 then 1 else 0)"
  have h: "\<forall>p c. c \<in> set (childPidsOf family_proc p) \<longrightarrow> rank c < rank p"
    by (auto simp add: childPidsOf_def filterPids_def isChildOf_def family_proc_def rank_def
        split: if_splits)
  have r: "Suc (rank 5) = 2" by (simp add: rank_def)
  have a: "(\<exists>k'. addPidToCgroup 2 family_proc 5 VpnExclusionsFile boot_kernel = Some k') \<and>
      (\<exists>k'. removePidFromCgroup 2 family_proc 5 VpnExclusionsFile boot_kernel = Some k')"
    using cgroup_recursion_returns_on_acyclic_proc [where fs = family_proc and rank = rank and pid = 5 and cGroupPath = VpnExclusionsFile
        and k = boot_kernel] h
    by (simp only: r)
  have c: "(6::int) \<in> {5, 6} \<and> (\<forall>p \<in> {5, 6}. \<exists>c \<in> set (childPidsOf cyclic_proc p). c \<in> {5, 6})"
    by (simp add: cyclic_children)
  have b: "addPidToCgroup 40 cyclic_proc 6 VpnOnlyFile boot_kernel = None \<and>
      removePidFromCgroup 40 cyclic_proc 6 VpnOnlyFile boot_kernel = None"
    using cgroup_recursion_returns_on_acyclic_proc [where fs = cyclic_proc and pid = 6 and cGroupPath = VpnOnlyFile and k = boot_kernel
        and C = "{5, 6}" and depth = 40] c
    by blast
  show ?thesis using a b by blast
qed

text \<open>On the snapshot in which 5 and 6 name each other as parent, no call depth lets
  the recursion from pid 5 return.\<close>

theorem cgroup_recursion_cycle_never_returns:
  "\<not> (\<exists>depth k'. addPidToCgroup depth cyclic_proc 5 VpnExclusionsFile boot_kernel = Some k')"
  by (simp add: cyclic_never_returns)

text \<open>
  Claim C10.  The recursion of \<^verbatim>\<open>addPidToCgroup\<close> writes the pid it is started at and every
  descendant it reaches into the cgroup, and touches no map.  \<^verbatim>\<open>addApps\<close> gives each listed
  path exactly the pids its scan of /proc returns, and puts these pids and all their
  descendants into the cgroup.  \<^verbatim>\<open>addLaunchedApp\<close> inserts no pid but the launched one, under
  the path it resolves to; when that path is a key of the exclusions map and the scan is
  valid, or a key of the vpn-only map only, the launched pid is in its path set afterwards
  and it and all its descendants are in the cgroup of that map.  For each public operation,
  a pid that is in a path set of a map afterwards and was not in that set before resolves
  to the path in the snapshot the operation read for that map.
\<close>

theorem pids_enter_the_maps_by_path_only:
  "(addPidToCgroup depth fs pid cGroupPath k = Some k' \<longrightarrow>
      (\<forall>q. descendant fs pid q \<longrightarrow> cgroup_of k' q = cGroupPath)) \<and>
   (addApps depth fs apps cGroupPath (appMap, k) = Some (appMap', k') \<longrightarrow>
      enters_by_path fs appMap appMap' \<and>
      (\<forall>app \<in> set apps.
         set (app_pids appMap' app) = set (pidsForPath fs app) \<and>
         (\<forall>p \<in> set (pidsForPath fs app). \<forall>q. descendant fs p q \<longrightarrow> cgroup_of k' q = cGroupPath))) \<and>
   (addLaunchedApp depth fs pid tk = Some tk' \<longrightarrow>
      (\<forall>a p. p \<in> set (app_pids (exclusionsMap (fst tk')) a) \<longrightarrow>
         p \<in> set (app_pids (exclusionsMap (fst tk)) a) \<or> p = pid \<and> pathForPid fs pid = a) \<and>
      (\<forall>a p. p \<in> set (app_pids (vpnOnlyMap (fst tk')) a) \<longrightarrow>
         p \<in> set (app_pids (vpnOnlyMap (fst tk)) a) \<or> p = pid \<and> pathForPid fs pid = a) \<and>
      (pathForPid fs pid \<noteq> [] \<longrightarrow> app_contains (exclusionsMap (fst tk)) (pathForPid fs pid) \<longrightarrow>
       isValid (previousNetScan (fst tk)) \<longrightarrow>
         pid \<in> set (app_pids (exclusionsMap (fst tk')) (pathForPid fs pid)) \<and>
         (\<forall>q. descendant fs pid q \<longrightarrow> cgroup_of (snd tk') q = VpnExclusionsFile)) \<and>
      (pathForPid fs pid \<noteq> [] \<longrightarrow> \<not> app_contains (exclusionsMap (fst tk)) (pathForPid fs pid) \<longrightarrow>
       app_contains (vpnOnlyMap (fst tk)) (pathForPid fs pid) \<longrightarrow>
         pid \<in> set (app_pids (vpnOnlyMap (fst tk')) (pathForPid fs pid)) \<and>
         (\<forall>q. descendant fs pid q \<longrightarrow> cgroup_of (snd tk') q = VpnOnlyFile))) \<and>
   (public_op fsE fsV tk tk' \<longrightarrow>
      enters_by_path fsE (exclusionsMap (fst tk)) (exclusionsMap (fst tk')) \<and>
      enters_by_path fsV (vpnOnlyMap (fst tk)) (vpnOnlyMap (fst tk')))"
proof (intro conjI impI ballI allI)
  fix q
  assume "addPidToCgroup depth fs pid cGroupPath k = Some k'" "descendant fs pid q"
  then show "cgroup_of k' q = cGroupPath" by (rule addPidToCgroup_descendants)
next
  assume "addApps depth fs apps cGroupPath (appMap, k) = Some (appMap', k')"
  then show "enters_by_path fs appMap appMap'" by (rule addApps_enters)
next
  fix app
  assume a: "addApps depth fs apps cGroupPath (appMap, k) = Some (appMap', k')"
    and "app \<in> set apps"
  then show "set (app_pids appMap' app) = set (pidsForPath fs app)"
    by (simp add: addApps_map [OF a] set_app_pids tracked_pids_fold_scan_app)
next
  fix app p q
  assume "addApps depth fs apps cGroupPath (appMap, k) = Some (appMap', k')"
    "app \<in> set apps" "p \<in> set (pidsForPath fs app)" "descendant fs p q"
  then show "cgroup_of k' q = cGroupPath" using addApps_cgroup by blast
next
  fix a p
  assume "addLaunchedApp depth fs pid tk = Some tk'"
    "p \<in> set (app_pids (exclusionsMap (fst tk')) a)"
  then show "p \<in> set (app_pids (exclusionsMap (fst tk)) a) \<or> p = pid \<and> pathForPid fs pid = a"
    by (rule addLaunchedApp_only_pid(1))
next
  fix a p
  assume "addLaunchedApp depth fs pid tk = Some tk'"
    "p \<in> set (app_pids (vpnOnlyMap (fst tk')) a)"
  then show "p \<in> set (app_pids (vpnOnlyMap (fst tk)) a) \<or> p = pid \<and> pathForPid fs pid = a"
    by (rule addLaunchedApp_only_pid(2))
next
  assume "addLaunchedApp depth fs pid tk = Some tk'" "pathForPid fs pid \<noteq> []"
    "app_contains (exclusionsMap (fst tk)) (pathForPid fs pid)" "isValid (previousNetScan (fst tk))"
  then show "pid \<in> set (app_pids (exclusionsMap (fst tk')) (pathForPid fs pid))"
    using addLaunchedApp_excluded by blast
next
  fix q
  assume "addLaunchedApp depth fs pid tk = Some tk'" "pathForPid fs pid \<noteq> []"
    "app_contains (exclusionsMap (fst tk)) (pathForPid fs pid)" "isValid (previousNetScan (fst tk))"
    "descendant fs pid q"
  then show "cgroup_of (snd tk') q = VpnExclusionsFile"
    using addLaunchedApp_excluded by blast
next
  assume "addLaunchedApp depth fs pid tk = Some tk'" "pathForPid fs pid \<noteq> []"
    "\<not> app_contains (exclusionsMap (fst tk)) (pathForPid fs pid)"
    "app_contains (vpnOnlyMap (fst tk)) (pathForPid fs pid)"
  then show "pid \<in> set (app_pids (vpnOnlyMap (fst tk')) (pathForPid fs pid))"
    using addLaunchedApp_vpn_only by blast
next
  fix q
  assume "addLaunchedApp depth fs pid tk = Some tk'" "pathForPid fs pid \<noteq> []"
    "\<not> app_contains (exclusionsMap (fst tk)) (pathForPid fs pid)"
    "app_contains (vpnOnlyMap (fst tk)) (pathForPid fs pid)"
    "descendant fs pid q"
  then show "cgroup_of (snd tk') q = VpnOnlyFile"
    using addLaunchedApp_vpn_only by blast
next
  assume "public_op fsE fsV tk tk'"
  then show "enters_by_path fsE (exclusionsMap (fst tk)) (exclusionsMap (fst tk'))"
    using public_op_enters by blast
next
  assume "public_op fsE fsV tk tk'"
  then show "enters_by_path fsV (vpnOnlyMap (fst tk)) (vpnOnlyMap (fst tk'))"
    using public_op_enters by blast
qed

text \<open>Process 8 starts \<^verbatim>\<open>/usr/bin/foo\<close> during a session that excludes it; 8 has the child 9,
  a shell, whose child 10 runs \<^verbatim>\<open>/bin/cat\<close>.  \<^verbatim>\<open>addLaunchedApp\<close> puts 8 into the path set of
  \<^verbatim>\<open>/usr/bin/foo\<close> and 8, 9 and 10 into the exclusions cgroup; 9 and 10 are in no path set of
  either map.  The same holds of the scan in \<^verbatim>\<open>addApps\<close>.\<close>

theorem pids_enter_the_maps_by_path_only_witness:
  "\<exists>appMap' k' k'' s1 s2.
     addPidToCgroup (Suc (Suc (Suc 0))) lineage_proc 8 VpnOnlyFile boot_kernel = Some k'' \<and>
     map (cgroup_of k'') [5, 8, 9, 10] =
       [ParentVpnExclusionsFile, VpnOnlyFile, VpnOnlyFile, VpnOnlyFile] \<and>
     addApps (Suc (Suc (Suc 0))) lineage_proc [''/usr/bin/foo''] VpnExclusionsFile ([], boot_kernel) =
       Some (appMap', k') \<and>
     set (app_pids appMap' ''/usr/bin/foo'') = {5, 8} \<and>
     map (cgroup_of k') [5, 6, 8, 9, 10] =
       [VpnExclusionsFile, VpnExclusionsFile, VpnExclusionsFile, VpnExclusionsFile,
        VpnExclusionsFile] \<and>
     enters_by_path lineage_proc [] appMap' \<and>
     initiateConnection (Suc (Suc 0)) family_proc family_proc ok_calls exclude_foo ''tun0'' ''10.0.0.2''
       ''10.0.0.1'' (initial_tracker, boot_kernel) = Some s1 \<and>
     exclusionsMap (fst s1) = [(''/usr/bin/foo'', [5])] \<and> vpnOnlyMap (fst s1) = [] \<and>
     map (cgroup_of (snd s1)) [8, 9, 10] =
       [ParentVpnExclusionsFile, ParentVpnExclusionsFile, ParentVpnExclusionsFile] \<and>
     addLaunchedApp (Suc (Suc (Suc 0))) lineage_proc 8 s1 = Some s2 \<and>
     8 \<in> set (app_pids (exclusionsMap (fst s2)) ''/usr/bin/foo'') \<and>
     map (cgroup_of (snd s2)) [8, 9, 10] =
       [VpnExclusionsFile, VpnExclusionsFile, VpnExclusionsFile] \<and>
     (\<forall>a. 9 \<notin> set (app_pids (exclusionsMap (fst s2)) a) \<and>
          10 \<notin> set (app_pids (exclusionsMap (fst s2)) a) \<and>
          9 \<notin> set (app_pids (vpnOnlyMap (fst s2)) a) \<and>
          10 \<notin> set (app_pids (vpnOnlyMap (fst s2)) a)) \<and>
     enters_by_path lineage_proc (exclusionsMap (fst s1)) (exclusionsMap (fst s2)) \<and>
     enters_by_path lineage_proc (vpnOnlyMap (fst s1)) (vpnOnlyMap (fst s2))"
proof -
  obtain appMap' k' k'' s1 s2 where
    w: "addPidToCgroup (Suc (Suc (Suc 0))) lineage_proc 8 VpnOnlyFile boot_kernel = Some k''"
    and p5: "cgroup_of k'' 5 = ParentVpnExclusionsFile"
    and a: "addApps (Suc (Suc (Suc 0))) lineage_proc [''/usr/bin/foo''] VpnExclusionsFile
              ([], boot_kernel) = Some (appMap', k')"
    and r1: "initiateConnection (Suc (Suc 0)) family_proc family_proc ok_calls exclude_foo ''tun0''
               ''10.0.0.2'' ''10.0.0.1'' (initial_tracker, boot_kernel) = Some s1"
    and e1: "exclusionsMap (fst s1) = [(''/usr/bin/foo'', [5])]"
    and v1: "vpnOnlyMap (fst s1) = []"
    and scan1: "previousNetScan (fst s1) = home_scan"
    and c1: "map (cgroup_of (snd s1)) [8, 9, 10] =
               [ParentVpnExclusionsFile, ParentVpnExclusionsFile, ParentVpnExclusionsFile]"
    and r2: "addLaunchedApp (Suc (Suc (Suc 0))) lineage_proc 8 s1 = Some s2"
    using lineage_run by (elim exE conjE) (rule that)
  have kids5: "6 \<in> set (childPidsOf lineage_proc 5)"
    and kids8: "9 \<in> set (childPidsOf lineage_proc 8)"
    and kids9: "10 \<in> set (childPidsOf lineage_proc 9)"
    by (simp_all add: proc_defs lineage_proc_def)
  have d6: "descendant lineage_proc 5 6"
    using kids5 by (blast intro: descendant.intros)
  have d9: "descendant lineage_proc 8 9"
    using kids8 by (blast intro: descendant.intros)
  have d10: "descendant lineage_proc 8 10"
    using kids8 kids9 by (blast intro: descendant.intros)
  have d5: "descendant lineage_proc 5 5" and d8: "descendant lineage_proc 8 8"
    by (rule descendant.self)+
  have scan: "set (pidsForPath lineage_proc ''/usr/bin/foo'') = {5, 8}"
    by (auto simp add: set_pidsForPath lineage_proc_def pathForPid_def)
  have path8: "pathForPid lineage_proc 8 = ''/usr/bin/foo''"
    by (simp add: pathForPid_def lineage_proc_def)
  have tracked: "app_contains (exclusionsMap (fst s1)) ''/usr/bin/foo''"
    by (simp add: e1 app_contains_def)
  have valid: "isValid (previousNetScan (fst s1))"
    by (simp add: scan1 home_scan_def isValid_def)
  note writer = pids_enter_the_maps_by_path_only [where depth = "Suc (Suc (Suc 0))"
      and fs = lineage_proc and pid = 8 and cGroupPath = VpnOnlyFile and k = boot_kernel
      and k' = k'', THEN conjunct1, rule_format, OF w]
  have cw: "map (cgroup_of k'') [5, 8, 9, 10] =
       [ParentVpnExclusionsFile, VpnOnlyFile, VpnOnlyFile, VpnOnlyFile]"
    using writer [OF d8] writer [OF d9] writer [OF d10] p5 by simp
  note scanned = pids_enter_the_maps_by_path_only [where depth = "Suc (Suc (Suc 0))"
      and fs = lineage_proc and apps = "[''/usr/bin/foo'']" and cGroupPath = VpnExclusionsFile
      and appMap = "[]" and k = boot_kernel and appMap' = appMap' and k' = k',
      THEN conjunct2, THEN conjunct1, rule_format, OF a]
  have ea: "enters_by_path lineage_proc [] appMap'" using scanned by blast
  have sa: "set (app_pids appMap' ''/usr/bin/foo'') = {5, 8}"
    using scanned scan by simp
  have ca: "map (cgroup_of k') [5, 6, 8, 9, 10] =
       [VpnExclusionsFile, VpnExclusionsFile, VpnExclusionsFile, VpnExclusionsFile,
        VpnExclusionsFile]"
    using scanned scan d5 d6 d8 d9 d10 by simp
  note launch = pids_enter_the_maps_by_path_only [where depth = "Suc (Suc (Suc 0))"
      and fs = lineage_proc and pid = 8 and tk = s1 and tk' = s2,
      THEN conjunct2, THEN conjunct2, THEN conjunct1, rule_format, OF r2]
  have in8: "8 \<in> set (app_pids (exclusionsMap (fst s2)) ''/usr/bin/foo'')"
    using launch path8 tracked valid by simp
  have c2: "map (cgroup_of (snd s2)) [8, 9, 10] =
       [VpnExclusionsFile, VpnExclusionsFile, VpnExclusionsFile]"
    using launch path8 tracked valid d8 d9 d10 by simp
  have out: "\<forall>a. 9 \<notin> set (app_pids (exclusionsMap (fst s2)) a) \<and>
             10 \<notin> set (app_pids (exclusionsMap (fst s2)) a) \<and>
             9 \<notin> set (app_pids (vpnOnlyMap (fst s2)) a) \<and>
             10 \<notin> set (app_pids (vpnOnlyMap (fst s2)) a)"
  proof
    fix a
    have ex: "p = 5 \<or> p = 8" if "p \<in> set (app_pids (exclusionsMap (fst s2)) a)" for p
    proof -
      have "p \<in> set (app_pids (exclusionsMap (fst s1)) a) \<or>
            p = 8 \<and> pathForPid lineage_proc 8 = a"
        using launch that by blast
      then show ?thesis by (auto simp add: e1 app_pids_def split: if_splits)
    qed
    have vo: "p = 8" if "p \<in> set (app_pids (vpnOnlyMap (fst s2)) a)" for p
    proof -
      have "p \<in> set (app_pids (vpnOnlyMap (fst s1)) a) \<or>
            p = 8 \<and> pathForPid lineage_proc 8 = a"
        using launch that by blast
      then show ?thesis by (auto simp add: v1 app_pids_def)
    qed
    show "9 \<notin> set (app_pids (exclusionsMap (fst s2)) a) \<and>
          10 \<notin> set (app_pids (exclusionsMap (fst s2)) a) \<and>
          9 \<notin> set (app_pids (vpnOnlyMap (fst s2)) a) \<and>
          10 \<notin> set (app_pids (vpnOnlyMap (fst s2)) a)"
      using ex [of 9] ex [of 10] vo [of 9] vo [of 10] by auto
  qed
  have op: "public_op lineage_proc lineage_proc s1 s2"
    using r2 by (rule public_op.launched) simp
  have en: "enters_by_path lineage_proc (exclusionsMap (fst s1)) (exclusionsMap (fst s2)) \<and>
            enters_by_path lineage_proc (vpnOnlyMap (fst s1)) (vpnOnlyMap (fst s2))"
    using pids_enter_the_maps_by_path_only [where fsE = lineage_proc and fsV = lineage_proc
        and tk = s1 and tk' = s2] op by blast
  show ?thesis
    apply (rule exI [of _ appMap'])
    apply (rule exI [of _ k'])
    apply (rule exI [of _ k''])
    apply (rule exI [of _ s1])
    apply (rule exI [of _ s2])
    using w cw a sa ca ea r1 e1 v1 c1 r2 in8 c2 out en by simp
qed

end
